(* ===== verification/Bore_Prelude.thy ===== *)
theory Bore_Prelude
  imports Main "HOL-Library.Word" "HOL-Library.Char_ord" "HOL-Library.List_Lexorder"
begin

text \<open>
  Shared vocabulary of the development.

  \<^item> Rust's \<^verbatim>\<open>Result<T, E>\<close> is the sum type \<open>'e + 'a\<close> with \<open>Inl\<close> for the error;
    \<open>rbind\<close> is the \<^verbatim>\<open>?\<close> operator, \<open>ensure\<close> an early return on a failed
    check, \<open>ok_or\<close> is \<^verbatim>\<open>Option::ok_or_else\<close> and \<open>rmap\<close> a loop that collects
    results and stops at the first error.
  \<^item> \<^verbatim>\<open>u64\<close>, \<^verbatim>\<open>u32\<close> and \<^verbatim>\<open>usize\<close> values are \<open>nat\<close>; every operation that can leave
    the range is written with the Rust operation the source calls
    (\<open>checked_add_u64\<close>, \<open>saturating_mul_u64\<close>, \<open>saturating_sub\<close>).
    Bit patterns and wire headers are \<open>'w word\<close>.
  \<^item> \<^verbatim>\<open>&str\<close> and textual \<^verbatim>\<open>&[u8]\<close> are \<open>string\<close>: a list of \<open>char\<close>, one per byte of
    the UTF-8 encoding, so that \<open>length\<close> is \<^verbatim>\<open>str::len\<close>.
\<close>

named_theorems result_simps "decomposition of successful computations"
named_theorems machine_simps "bounds and unfoldings of the machine arithmetic"
named_theorems text_simps "character classes and string operations"

section \<open>Results\<close>

type_synonym ('e, 'a) result = "'e + 'a"

fun rbind :: "('e, 'a) result \<Rightarrow> ('a \<Rightarrow> ('e, 'b) result) \<Rightarrow> ('e, 'b) result" where
  "rbind (Inl e) f = Inl e"
| "rbind (Inr x) f = f x"

definition ensure :: "bool \<Rightarrow> 'e \<Rightarrow> ('e, unit) result" where
  "ensure b e = (if b then Inr () else Inl e)"

fun ok_or :: "'a option \<Rightarrow> 'e \<Rightarrow> ('e, 'a) result" where
  "ok_or None e = Inl e"
| "ok_or (Some x) e = Inr x"

fun rmap :: "('a \<Rightarrow> ('e, 'b) result) \<Rightarrow> 'a list \<Rightarrow> ('e, 'b list) result" where
  "rmap f [] = Inr []"
| "rmap f (x # xs) = rbind (f x) (\<lambda>y. rbind (rmap f xs) (\<lambda>ys. Inr (y # ys)))"

fun map_err :: "('e \<Rightarrow> 'f) \<Rightarrow> ('e, 'a) result \<Rightarrow> ('f, 'a) result" where
  "map_err g (Inl e) = Inl (g e)"
| "map_err g (Inr x) = Inr x"

definition is_ok :: "('e, 'a) result \<Rightarrow> bool" where
  "is_ok r = (case r of Inl _ \<Rightarrow> False | Inr _ \<Rightarrow> True)"

lemma rbind_Inr_iff [result_simps]:
  "rbind r f = Inr y \<longleftrightarrow> (\<exists>x. r = Inr x \<and> f x = Inr y)"
  by (cases r) auto

lemma rbind_Inl_iff:
  "rbind r f = Inl e \<longleftrightarrow> r = Inl e \<or> (\<exists>x. r = Inr x \<and> f x = Inl e)"
  by (cases r) auto

lemma ensure_Inr_iff [result_simps]: "ensure b e = Inr u \<longleftrightarrow> b"
  by (cases u) (simp add: ensure_def)

lemma ensure_Inl_iff: "ensure b e = Inl e' \<longleftrightarrow> \<not> b \<and> e' = e"
  by (auto simp: ensure_def)

lemma ensure_True [simp]: "ensure True e = Inr ()"
  and ensure_False [simp]: "ensure False e = Inl e"
  by (simp_all add: ensure_def)

lemma ok_or_Inr_iff [result_simps]: "ok_or x e = Inr v \<longleftrightarrow> x = Some v"
  by (cases x) auto

lemma ok_or_Inl_iff: "ok_or x e = Inl e' \<longleftrightarrow> x = None \<and> e' = e"
  by (cases x) auto

lemma map_err_Inr_iff [result_simps]: "map_err g r = Inr x \<longleftrightarrow> r = Inr x"
  by (cases r) auto

lemma is_ok_simps [simp]: "is_ok (Inl e) = False" "is_ok (Inr x) = True"
  by (simp_all add: is_ok_def)

lemma is_ok_iff: "is_ok r \<longleftrightarrow> (\<exists>x. r = Inr x)"
  by (cases r) auto

lemma rbind_cong [fundef_cong]:
  "r = r' \<Longrightarrow> (\<And>x. r' = Inr x \<Longrightarrow> f x = g x) \<Longrightarrow> rbind r f = rbind r' g"
  by (cases r') auto

lemma rmap_cong [fundef_cong]:
  "xs = ys \<Longrightarrow> (\<And>x. x \<in> set ys \<Longrightarrow> f x = g x) \<Longrightarrow> rmap f xs = rmap g ys"
  by (induction ys arbitrary: xs) auto

lemma rmap_Inr_iff:
  "rmap f xs = Inr ys \<longleftrightarrow> list_all2 (\<lambda>x y. f x = Inr y) xs ys"
proof (induction xs arbitrary: ys)
  case Nil
  then show ?case by (cases ys) auto
next
  case (Cons x xs)
  then show ?case by (cases ys) (auto simp: rbind_Inr_iff)
qed

lemma rmap_Inr_length: "rmap f xs = Inr ys \<Longrightarrow> length ys = length xs"
  by (simp add: rmap_Inr_iff list_all2_lengthD)

lemma rmap_Inr_nth: "rmap f xs = Inr ys \<Longrightarrow> i < length xs \<Longrightarrow> f (xs ! i) = Inr (ys ! i)"
  by (simp add: rmap_Inr_iff list_all2_conv_all_nth)

lemma rmap_if:
  "(\<And>x. x \<in> set xs \<Longrightarrow> f x = (if P x then Inr (g x) else Inl e)) \<Longrightarrow>
     rmap f xs = (if list_all P xs then Inr (map g xs) else Inl e)"
  by (induction xs) auto

lemma rmap_Inr_map:
  "rmap f xs = Inr ys \<longleftrightarrow> list_all (\<lambda>x. is_ok (f x)) xs \<and> ys = map (\<lambda>x. projr (f x)) xs"
proof (induction xs arbitrary: ys)
  case (Cons x xs)
  then show ?case by (cases "f x"; cases "rmap f xs") auto
qed auto

lemma rmap_map: "(\<And>x. x \<in> set xs \<Longrightarrow> f (g x) = Inr x) \<Longrightarrow> rmap f (map g xs) = Inr xs"
  by (induction xs) auto

lemma rmap_total: "is_ok (rmap f xs) \<longleftrightarrow> list_all (\<lambda>x. is_ok (f x)) xs"
proof (induction xs)
  case (Cons x xs)
  then show ?case by (cases "f x"; cases "rmap f xs") auto
qed simp

lemma is_ok_rbind_Inr [simp]: "is_ok (rbind r (\<lambda>x. Inr (f x))) \<longleftrightarrow> is_ok r"
  by (cases r) simp_all

section \<open>Machine integers\<close>

definition u64_max :: nat where "u64_max = 18446744073709551615"
definition u32_max :: nat where "u32_max = 4294967295"
definition u16_max :: nat where "u16_max = 65535"

lemma max_consts [machine_simps]:
  "u64_max = 2 ^ 64 - 1" "u32_max = 2 ^ 32 - 1" "u16_max = 2 ^ 16 - 1"
  by (simp_all add: u64_max_def u32_max_def u16_max_def)

definition checked_add_u64 :: "nat \<Rightarrow> nat \<Rightarrow> nat option" where
  "checked_add_u64 a b = (if a + b \<le> u64_max then Some (a + b) else None)"

definition checked_mul_u64 :: "nat \<Rightarrow> nat \<Rightarrow> nat option" where
  "checked_mul_u64 a b = (if a * b \<le> u64_max then Some (a * b) else None)"

definition saturating_mul_u64 :: "nat \<Rightarrow> nat \<Rightarrow> nat" where
  "saturating_mul_u64 a b = min (a * b) u64_max"

definition saturating_add_u64 :: "nat \<Rightarrow> nat \<Rightarrow> nat" where
  "saturating_add_u64 a b = min (a + b) u64_max"

text \<open>
  \<^verbatim>\<open>AtomicU64::fetch_add\<close> and \<^verbatim>\<open>fetch_sub\<close> wrap around; the model writes the wrap out.
\<close>

definition wrapping_add_u64 :: "nat \<Rightarrow> nat \<Rightarrow> nat" where
  "wrapping_add_u64 a b = (a + b) mod (u64_max + 1)"

definition wrapping_sub_u64 :: "nat \<Rightarrow> nat \<Rightarrow> nat" where
  "wrapping_sub_u64 a b = (a + (u64_max + 1) - b mod (u64_max + 1)) mod (u64_max + 1)"

lemma checked_add_u64_Some_iff [machine_simps]:
  "checked_add_u64 a b = Some c \<longleftrightarrow> c = a + b \<and> a + b \<le> u64_max"
  by (auto simp: checked_add_u64_def)

lemma checked_mul_u64_Some_iff [machine_simps]:
  "checked_mul_u64 a b = Some c \<longleftrightarrow> c = a * b \<and> a * b \<le> u64_max"
  by (auto simp: checked_mul_u64_def)

lemma saturating_le [simp]:
  "saturating_mul_u64 a b \<le> u64_max" "saturating_add_u64 a b \<le> u64_max"
  by (simp_all add: saturating_mul_u64_def saturating_add_u64_def)

lemma wrapping_add_u64_exact: "a + b \<le> u64_max \<Longrightarrow> wrapping_add_u64 a b = a + b"
  by (simp add: wrapping_add_u64_def)

lemma wrapping_sub_u64_exact: "b \<le> a \<Longrightarrow> a \<le> u64_max \<Longrightarrow> wrapping_sub_u64 a b = a - b"
proof -
  assume "b \<le> a" "a \<le> u64_max"
  then have "a + (u64_max + 1) - b mod (u64_max + 1) = (a - b) + (u64_max + 1)"
    by simp
  moreover from \<open>b \<le> a\<close> \<open>a \<le> u64_max\<close> have "a - b < u64_max + 1" by simp
  ultimately show ?thesis
    unfolding wrapping_sub_u64_def by (simp only: mod_add_self2 mod_less)
qed

lemma wrapping_sub_u64_underflow: "wrapping_sub_u64 0 1 = u64_max"
  by (simp add: wrapping_sub_u64_def u64_max_def)

section \<open>Byte text\<close>

definition byte_of :: "char \<Rightarrow> nat" where
  "byte_of c = of_char c"

definition is_ascii_digit :: "char \<Rightarrow> bool" where
  "is_ascii_digit c = (48 \<le> byte_of c \<and> byte_of c \<le> 57)"

definition is_ascii_upper :: "char \<Rightarrow> bool" where
  "is_ascii_upper c = (65 \<le> byte_of c \<and> byte_of c \<le> 90)"

definition is_ascii_lower :: "char \<Rightarrow> bool" where
  "is_ascii_lower c = (97 \<le> byte_of c \<and> byte_of c \<le> 122)"

definition is_ascii_alphanumeric :: "char \<Rightarrow> bool" where
  "is_ascii_alphanumeric c = (is_ascii_digit c \<or> is_ascii_upper c \<or> is_ascii_lower c)"

definition is_ascii_control :: "char \<Rightarrow> bool" where
  "is_ascii_control c = (byte_of c < 32 \<or> byte_of c = 127)"

definition to_ascii_lower :: "char \<Rightarrow> char" where
  "to_ascii_lower c = (if is_ascii_upper c then char_of (byte_of c + 32) else c)"

definition to_ascii_lowercase :: "string \<Rightarrow> string" where
  "to_ascii_lowercase = map to_ascii_lower"

definition eq_ignore_ascii_case :: "string \<Rightarrow> string \<Rightarrow> bool" where
  "eq_ignore_ascii_case a b = (to_ascii_lowercase a = to_ascii_lowercase b)"

lemmas ascii_class_defs [text_simps] =
  is_ascii_digit_def is_ascii_upper_def is_ascii_lower_def is_ascii_alphanumeric_def
  is_ascii_control_def byte_of_def

lemma byte_of_less [simp]: "byte_of c < 256"
  by (simp add: byte_of_def)

lemma byte_of_inj [simp]: "byte_of a = byte_of b \<longleftrightarrow> a = b"
  by (simp add: byte_of_def)

lemma byte_of_char_of [simp]: "n < 256 \<Longrightarrow> byte_of (char_of n) = n"
  by (simp add: byte_of_def of_char_of)

lemma char_of_byte_of [simp]: "char_of (byte_of c) = c"
  by (simp add: byte_of_def)

lemma length_to_ascii_lowercase [simp]: "length (to_ascii_lowercase s) = length s"
  by (simp add: to_ascii_lowercase_def)

lemma to_ascii_lower_idem [simp]: "to_ascii_lower (to_ascii_lower c) = to_ascii_lower c"
proof (cases "is_ascii_upper c")
  case True
  then have "byte_of c + 32 < 256" by (simp add: is_ascii_upper_def)
  with True show ?thesis
    by (auto simp: to_ascii_lower_def is_ascii_upper_def)
next
  case False
  then show ?thesis by (simp add: to_ascii_lower_def)
qed

lemma to_ascii_lowercase_idem [simp]:
  "to_ascii_lowercase (to_ascii_lowercase s) = to_ascii_lowercase s"
  by (simp add: to_ascii_lowercase_def comp_def)

section \<open>Counting over lists\<close>

lemma sum_map_update:
  fixes f :: "'a \<Rightarrow> nat"
  shows "i < length xs \<Longrightarrow> sum_list (map f (xs[i := y])) + f (xs ! i) = sum_list (map f xs) + f y"
  by (induction xs arbitrary: i) (auto split: nat.split)

lemma sum_map_nth_le:
  fixes f :: "'a \<Rightarrow> nat"
  shows "i < length xs \<Longrightarrow> f (xs ! i) \<le> sum_list (map f xs)"
  by (rule member_le_sum_list) auto

lemma sum_map_drop_nth:
  fixes f :: "'a \<Rightarrow> nat"
  assumes "i < length xs"
  shows "sum_list (map f (take i xs @ drop (Suc i) xs)) + f (xs ! i) = sum_list (map f xs)"
proof -
  have "sum_list (map f xs) = sum_list (map f (take i xs @ xs ! i # drop (Suc i) xs))"
    using id_take_nth_drop [OF assms] by simp
  then show ?thesis by simp
qed

lemma sum_map_eq_0:
  fixes f :: "'a \<Rightarrow> nat"
  shows "(\<And>x. x \<in> set xs \<Longrightarrow> f x = 0) \<Longrightarrow> sum_list (map f xs) = 0"
  by (induction xs) auto

section \<open>Transition systems\<close>

text \<open>
  The state machines of the development share one notion of run: a set of initial states
  and a step relation, reachability, and invariants proved by rule induction.
\<close>

locale transition_system =
  fixes start :: "'s \<Rightarrow> bool"
    and next_state :: "'s \<Rightarrow> 's \<Rightarrow> bool"
begin

inductive reach :: "'s \<Rightarrow> bool" where
  reach_start: "start s \<Longrightarrow> reach s"
| reach_next: "reach s \<Longrightarrow> next_state s s' \<Longrightarrow> reach s'"

lemma invariant_rule:
  assumes "reach s"
    and "\<And>s. start s \<Longrightarrow> I s"
    and "\<And>s s'. I s \<Longrightarrow> next_state s s' \<Longrightarrow> I s'"
  shows "I s"
  using assms(1) by induction (auto intro: assms(2,3))

lemma reach_rtranclp: "start s \<Longrightarrow> next_state\<^sup>*\<^sup>* s s' \<Longrightarrow> reach s'"
  by (rotate_tac 1, induction rule: rtranclp_induct) (auto intro: reach.intros)

end

end
