(* ===== verification/Rust_Text.thy ===== *)
theory Rust_Text
  imports Bore_Prelude
begin

text \<open>
  The operations of \<^verbatim>\<open>str\<close> and of the integer parsers and printers of Rust's standard
  library that the sources call: trimming, splitting, searching, prefixes and suffixes,
  UTF-8 validation, decimal numbers. Each comes with the facts the components use.
\<close>

section \<open>Prefixes, suffixes, searching\<close>

fun strip_prefix :: "string \<Rightarrow> string \<Rightarrow> string option" where
  "strip_prefix [] s = Some s"
| "strip_prefix (p # ps) [] = None"
| "strip_prefix (p # ps) (c # cs) = (if p = c then strip_prefix ps cs else None)"

definition starts_with :: "string \<Rightarrow> string \<Rightarrow> bool" where
  "starts_with p s = (strip_prefix p s \<noteq> None)"

definition strip_suffix :: "string \<Rightarrow> string \<Rightarrow> string option" where
  "strip_suffix p s = map_option rev (strip_prefix (rev p) (rev s))"

definition ends_with :: "string \<Rightarrow> string \<Rightarrow> bool" where
  "ends_with p s = (strip_suffix p s \<noteq> None)"

fun find_str :: "string \<Rightarrow> string \<Rightarrow> nat option" where
  "find_str p [] = (if p = [] then Some 0 else None)"
| "find_str p (c # cs) =
     (if starts_with p (c # cs) then Some 0 else map_option Suc (find_str p cs))"

definition contains_str :: "string \<Rightarrow> string \<Rightarrow> bool" where
  "contains_str p s = (find_str p s \<noteq> None)"

lemma strip_prefix_Some_iff [text_simps]: "strip_prefix p s = Some r \<longleftrightarrow> s = p @ r"
  by (induction p s rule: strip_prefix.induct) auto

lemma strip_prefix_append [simp]: "strip_prefix p (p @ r) = Some r"
  by (simp add: strip_prefix_Some_iff)

lemma starts_with_iff [text_simps]: "starts_with p s \<longleftrightarrow> (\<exists>r. s = p @ r)"
  by (auto simp: starts_with_def strip_prefix_Some_iff [symmetric])

lemma strip_suffix_Some_iff [text_simps]: "strip_suffix p s = Some r \<longleftrightarrow> s = r @ p"
proof -
  have "strip_suffix p s = Some r \<longleftrightarrow> strip_prefix (rev p) (rev s) = Some (rev r)"
    by (auto simp: strip_suffix_def)
  also have "\<dots> \<longleftrightarrow> rev s = rev (r @ p)" by (simp add: strip_prefix_Some_iff)
  finally show ?thesis by (simp only: rev_is_rev_conv)
qed

lemma ends_with_iff [text_simps]: "ends_with p s \<longleftrightarrow> (\<exists>r. s = r @ p)"
  by (auto simp: ends_with_def strip_suffix_Some_iff [symmetric])

lemma find_str_Some:
  "find_str p s = Some i \<Longrightarrow> i + length p \<le> length s \<and> (\<exists>r. drop i s = p @ r)"
proof (induction p s arbitrary: i rule: find_str.induct)
  case (1 p)
  then show ?case by (auto split: if_splits)
next
  case (2 p c cs)
  show ?case
  proof (cases "starts_with p (c # cs)")
    case True
    with 2 obtain r where "c # cs = p @ r" and "i = 0" by (auto simp: starts_with_iff)
    moreover from this have "length (c # cs) = length p + length r" by (metis length_append)
    ultimately show ?thesis by auto
  next
    case False
    with 2 obtain j where "i = Suc j" "find_str p cs = Some j" by auto
    with 2(1) [OF False] show ?thesis by auto
  qed
qed

lemma find_str_least: "find_str p s = Some i \<Longrightarrow> j < i \<Longrightarrow> \<not> starts_with p (drop j s)"
proof (induction p s arbitrary: i j rule: find_str.induct)
  case (1 p)
  then show ?case by (auto split: if_splits)
next
  case (2 p c cs)
  show ?case
  proof (cases "starts_with p (c # cs)")
    case True
    with 2 show ?thesis by simp
  next
    case False
    with 2 obtain i' where i': "i = Suc i'" "find_str p cs = Some i'" by auto
    show ?thesis
    proof (cases j)
      case 0
      with False show ?thesis by simp
    next
      case (Suc j')
      with 2 i' False show ?thesis by simp
    qed
  qed
qed

lemma find_str_None: "find_str p s = None \<Longrightarrow> \<not> starts_with p (drop j s)"
proof (induction p s arbitrary: j rule: find_str.induct)
  case (1 p)
  then show ?case by (cases p) (auto simp: starts_with_def split: if_splits)
next
  case (2 p c cs)
  from "2.prems" have f: "\<not> starts_with p (c # cs)" "find_str p cs = None"
    by (auto split: if_splits)
  show ?case
  proof (cases j)
    case 0
    with f show ?thesis by simp
  next
    case (Suc j')
    with 2 f show ?thesis by simp
  qed
qed

section \<open>Splitting\<close>

text \<open>\<^verbatim>\<open>s.split(c)\<close>: always at least one piece, one more than there are separators.\<close>

fun split_char :: "char \<Rightarrow> string \<Rightarrow> string list" where
  "split_char c [] = [[]]"
| "split_char c (x # xs) =
     (if x = c then [] # split_char c xs
      else (case split_char c xs of [] \<Rightarrow> [[x]] | p # ps \<Rightarrow> (x # p) # ps))"

text \<open>\<^verbatim>\<open>s.split("...")\<close> for a non-empty pattern: left to right, without overlaps.\<close>

fun split_str_acc :: "string \<Rightarrow> string \<Rightarrow> nat \<Rightarrow> string \<Rightarrow> string list" where
  "split_str_acc p acc k [] = [rev acc]"
| "split_str_acc p acc (Suc k) (x # xs) = split_str_acc p acc k xs"
| "split_str_acc p acc 0 (x # xs) =
     (if starts_with p (x # xs) then rev acc # split_str_acc p [] (length p - 1) xs
      else split_str_acc p (x # acc) 0 xs)"

definition split_str :: "string \<Rightarrow> string \<Rightarrow> string list" where
  "split_str p s = split_str_acc p [] 0 s"

fun split_once :: "char \<Rightarrow> string \<Rightarrow> (string \<times> string) option" where
  "split_once c [] = None"
| "split_once c (x # xs) =
     (if x = c then Some ([], xs)
      else map_option (\<lambda>(a, b). (x # a, b)) (split_once c xs))"

lemma split_char_not_Nil [simp]: "split_char c s \<noteq> []"
  by (cases s) (auto split: list.splits)

lemma split_char_pieces: "p \<in> set (split_char c s) \<Longrightarrow> c \<notin> set p"
proof (induction s arbitrary: p)
  case Nil
  then show ?case by simp
next
  case (Cons x xs)
  obtain q qs where q: "split_char c xs = q # qs" by (cases "split_char c xs") auto
  with Cons show ?case by (auto split: if_splits)
qed

lemma length_split_char: "length (split_char c s) = Suc (count_list s c)"
proof (induction s)
  case Nil
  then show ?case by simp
next
  case (Cons x xs)
  obtain q qs where "split_char c xs = q # qs" by (cases "split_char c xs") auto
  with Cons show ?case by auto
qed

lemma split_char_single: "c \<notin> set s \<Longrightarrow> split_char c s = [s]"
  by (induction s) auto

lemma split_char_append:
  "c \<notin> set a \<Longrightarrow> split_char c (a @ c # s) = a # split_char c s"
proof (induction a)
  case Nil
  then show ?case by simp
next
  case (Cons x xs)
  then show ?case by auto
qed

lemma split_once_Some_iff [text_simps]:
  "split_once c s = Some (a, b) \<longleftrightarrow> s = a @ c # b \<and> c \<notin> set a"
proof (induction s arbitrary: a)
  case Nil
  then show ?case by simp
next
  case (Cons x xs)
  then show ?case by (cases a) auto
qed

lemma split_once_None_iff: "split_once c s = None \<longleftrightarrow> c \<notin> set s"
  by (induction s) auto

section \<open>White space\<close>

text \<open>
  \<^verbatim>\<open>char::is_whitespace\<close> is the Unicode property \<^verbatim>\<open>White_Space\<close>; these are the UTF-8
  encodings of its 25 code points.
\<close>

definition ws_seqs :: "string list" where
  "ws_seqs =
     map (\<lambda>b. [char_of b]) [9, 10, 11, 12, 13, 32 :: nat]
     @ map (map char_of)
         ([[0xC2, 0x85], [0xC2, 0xA0], [0xE1, 0x9A, 0x80]]
          @ map (\<lambda>k. [0xE2, 0x80, k]) [0x80, 0x81, 0x82, 0x83, 0x84, 0x85, 0x86, 0x87, 0x88, 0x89,
                0x8A, 0xA8, 0xA9, 0xAF]
          @ [[0xE2, 0x81, 0x9F], [0xE3, 0x80, 0x80 :: nat]])"

fun first_strip :: "string list \<Rightarrow> string \<Rightarrow> string option" where
  "first_strip [] s = None"
| "first_strip (w # ws) s =
     (case strip_prefix w s of Some r \<Rightarrow> Some r | None \<Rightarrow> first_strip ws s)"

lemma first_strip_Some: "first_strip ws s = Some r \<Longrightarrow> \<exists>w \<in> set ws. s = w @ r"
  by (induction ws) (auto simp: strip_prefix_Some_iff split: option.splits)

text \<open>Each step removes one white-space character, so the length of the text is enough fuel.\<close>

fun trim_fuel :: "string list \<Rightarrow> nat \<Rightarrow> string \<Rightarrow> string" where
  "trim_fuel ws 0 s = s"
| "trim_fuel ws (Suc n) s = (case first_strip ws s of None \<Rightarrow> s | Some r \<Rightarrow> trim_fuel ws n r)"

definition trim_start :: "string \<Rightarrow> string" where
  "trim_start s = trim_fuel ws_seqs (length s) s"

definition trim_end :: "string \<Rightarrow> string" where
  "trim_end s = rev (trim_fuel (map rev ws_seqs) (length s) (rev s))"

definition trim :: "string \<Rightarrow> string" where
  "trim s = trim_end (trim_start s)"

lemma trim_fuel_suffix: "\<exists>p. s = p @ trim_fuel ws n s"
proof (induction n arbitrary: s)
  case 0
  then show ?case by simp
next
  case (Suc n)
  show ?case
  proof (cases "first_strip ws s")
    case None
    then show ?thesis by simp
  next
    case (Some r)
    then obtain w where "s = w @ r" using first_strip_Some by blast
    with Some Suc [of r] show ?thesis by (metis append.assoc option.simps(5) trim_fuel.simps(2))
  qed
qed

text \<open>The fuel is enough: what is left starts with no white space.\<close>

lemma trim_fuel_enough:
  assumes "[] \<notin> set ws" "length s \<le> n"
  shows "first_strip ws (trim_fuel ws n s) = None"
  using assms
proof (induction n arbitrary: s)
  case 0
  then show ?case
  proof (cases "first_strip ws []")
    case (Some r)
    then show ?thesis using 0 first_strip_Some by fastforce
  qed simp
next
  case (Suc n)
  show ?case
  proof (cases "first_strip ws s")
    case None
    then show ?thesis by simp
  next
    case (Some r)
    then obtain w where w: "w \<in> set ws" "s = w @ r" using first_strip_Some by blast
    with Suc.prems have "length r \<le> n" by (cases w) auto
    with Some Suc show ?thesis by simp
  qed
qed

lemma ws_seqs_nonempty: "[] \<notin> set ws_seqs" "[] \<notin> set (map rev ws_seqs)"
  by (simp_all add: ws_seqs_def)

lemma trim_start_done: "first_strip ws_seqs (trim_start s) = None"
  unfolding trim_start_def by (rule trim_fuel_enough) (auto simp: ws_seqs_nonempty)

lemma trim_factors: "\<exists>p q. s = p @ trim s @ q"
proof -
  obtain p where p: "s = p @ trim_start s"
    using trim_fuel_suffix unfolding trim_start_def by blast
  obtain q where "rev (trim_start s) = q @ trim_fuel (map rev ws_seqs) (length (trim_start s)) (rev (trim_start s))"
    using trim_fuel_suffix by blast
  then have "trim_start s = trim s @ rev q"
    unfolding trim_def trim_end_def by (metis rev_append rev_rev_ident)
  with p show ?thesis by metis
qed

lemma set_trim: "set (trim s) \<subseteq> set s"
proof -
  obtain p q where "s = p @ trim s @ q" using trim_factors by blast
  then have "set s = set p \<union> set (trim s) \<union> set q" by (metis set_append sup_assoc)
  then show ?thesis by blast
qed

section \<open>Decimal numbers\<close>

definition digit_val :: "char \<Rightarrow> nat" where
  "digit_val c = byte_of c - 48"

definition dec_val :: "string \<Rightarrow> nat" where
  "dec_val s = foldl (\<lambda>v c. 10 * v + digit_val c) 0 s"

text \<open>
  \<^verbatim>\<open>str::parse\<close> of an unsigned type whose largest value is \<open>mx\<close>: an optional \<open>+\<close>, then
  at least one digit, and nothing else.
\<close>

definition parse_unsigned :: "nat \<Rightarrow> string \<Rightarrow> nat option" where
  "parse_unsigned mx s =
     (let ds = (case s of c # cs \<Rightarrow> if c = CHR ''+'' then cs else s | [] \<Rightarrow> [])
      in if ds \<noteq> [] \<and> list_all is_ascii_digit ds \<and> dec_val ds \<le> mx
         then Some (dec_val ds) else None)"

abbreviation parse_u64 :: "string \<Rightarrow> nat option" where
  "parse_u64 \<equiv> parse_unsigned u64_max"

fun dec_digits :: "nat \<Rightarrow> nat list" where
  "dec_digits n = (if n < 10 then [n] else dec_digits (n div 10) @ [n mod 10])"

declare dec_digits.simps [simp del]

text \<open>\<^verbatim>\<open>to_string\<close> of an unsigned integer.\<close>

definition show_nat :: "nat \<Rightarrow> string" where
  "show_nat n = map (\<lambda>d. char_of (48 + d)) (dec_digits n)"

lemma dec_digits_small: "d \<in> set (dec_digits n) \<Longrightarrow> d < 10"
proof (induction n rule: dec_digits.induct)
  case (1 n)
  then show ?case by (subst (asm) (2) dec_digits.simps) (auto split: if_splits)
qed

lemma dec_digits_not_Nil [simp]: "dec_digits n \<noteq> []"
  by (subst dec_digits.simps) simp

lemma dec_digits_hd: "0 < n \<Longrightarrow> hd (dec_digits n) \<noteq> 0"
proof (induction n rule: dec_digits.induct)
  case (1 n)
  show ?case
  proof (cases "n < 10")
    case True
    with 1 show ?thesis by (subst dec_digits.simps) simp
  next
    case False
    with 1 have "hd (dec_digits (n div 10)) \<noteq> 0" by simp
    with False show ?thesis by (subst dec_digits.simps) simp
  qed
qed

lemma byte_of_digit [simp]: "d < 10 \<Longrightarrow> byte_of (char_of (48 + d)) = 48 + d"
  by simp

lemma dec_val_append_digit: "dec_val (s @ [c]) = 10 * dec_val s + digit_val c"
  by (simp add: dec_val_def)

lemma dec_val_show_nat [simp]: "dec_val (show_nat n) = n"
proof (induction n rule: dec_digits.induct)
  case (1 n)
  show ?case
  proof (cases "n < 10")
    case True
    then show ?thesis
      by (simp add: show_nat_def dec_digits.simps [of n] dec_val_def digit_val_def)
  next
    case False
    then have "dec_val (show_nat n) = 10 * dec_val (show_nat (n div 10)) + n mod 10"
      by (simp add: show_nat_def dec_digits.simps [of n] dec_val_append_digit digit_val_def)
    with 1 False show ?thesis by simp
  qed
qed

lemma show_nat_digits: "list_all is_ascii_digit (show_nat n)"
  by (auto simp: show_nat_def list_all_iff is_ascii_digit_def dest!: dec_digits_small)

lemma show_nat_not_Nil [simp]: "show_nat n \<noteq> []"
  by (simp add: show_nat_def)

lemma is_ascii_digit_not_plus: "is_ascii_digit c \<Longrightarrow> c \<noteq> CHR ''+''"
  by (auto simp: is_ascii_digit_def byte_of_def)

lemma parse_unsigned_show_nat: "n \<le> mx \<Longrightarrow> parse_unsigned mx (show_nat n) = Some n"
proof -
  assume "n \<le> mx"
  obtain c cs where c: "show_nat n = c # cs" by (cases "show_nat n") auto
  then have "is_ascii_digit c" using show_nat_digits [of n] by simp
  then have "c \<noteq> CHR ''+''" by (rule is_ascii_digit_not_plus)
  then show ?thesis
    using c \<open>n \<le> mx\<close> show_nat_digits [of n] dec_val_show_nat [of n]
    by (simp add: parse_unsigned_def)
qed

lemma parse_unsigned_bound: "parse_unsigned mx s = Some n \<Longrightarrow> n \<le> mx"
  by (auto simp: parse_unsigned_def Let_def split: if_splits)

lemma show_nat_inj [simp]: "show_nat a = show_nat b \<longleftrightarrow> a = b"
  by (metis dec_val_show_nat)

lemma show_nat_no_padding: "1 < length (show_nat n) \<Longrightarrow> hd (show_nat n) \<noteq> CHR ''0''"
proof
  assume len: "1 < length (show_nat n)" and hd: "hd (show_nat n) = CHR ''0''"
  have "0 < n"
  proof (rule ccontr)
    assume "\<not> 0 < n"
    with len show False by (simp add: show_nat_def dec_digits.simps [of 0])
  qed
  obtain d ds where d: "dec_digits n = d # ds" by (cases "dec_digits n") auto
  with \<open>0 < n\<close> have "d \<noteq> 0" "d < 10"
    using dec_digits_hd [of n] dec_digits_small [of d n] by auto
  moreover from hd d have "byte_of (char_of (48 + d)) = 48" by (simp add: show_nat_def byte_of_def)
  ultimately show False by simp
qed

section \<open>UTF-8\<close>

text \<open>\<^verbatim>\<open>std::str::from_utf8\<close>: the well-formed byte sequences of the Unicode standard.\<close>

definition cont_byte :: "nat \<Rightarrow> bool" where
  "cont_byte b = (0x80 \<le> b \<and> b \<le> 0xBF)"

fun utf8_valid :: "nat list \<Rightarrow> bool" where
  "utf8_valid [] = True"
| "utf8_valid (a # rest) =
     (if a \<le> 0x7F then utf8_valid rest
      else if 0xC2 \<le> a \<and> a \<le> 0xDF then
        (case rest of b # r \<Rightarrow> cont_byte b \<and> utf8_valid r | _ \<Rightarrow> False)
      else if 0xE0 \<le> a \<and> a \<le> 0xEF then
        (case rest of b # c # r \<Rightarrow>
           (if a = 0xE0 then 0xA0 \<le> b \<and> b \<le> 0xBF
            else if a = 0xED then 0x80 \<le> b \<and> b \<le> 0x9F
            else cont_byte b) \<and> cont_byte c \<and> utf8_valid r
         | _ \<Rightarrow> False)
      else if 0xF0 \<le> a \<and> a \<le> 0xF4 then
        (case rest of b # c # d # r \<Rightarrow>
           (if a = 0xF0 then 0x90 \<le> b \<and> b \<le> 0xBF
            else if a = 0xF4 then 0x80 \<le> b \<and> b \<le> 0x8F
            else cont_byte b) \<and> cont_byte c \<and> cont_byte d \<and> utf8_valid r
         | _ \<Rightarrow> False)
      else False)"

definition from_utf8 :: "string \<Rightarrow> string option" where
  "from_utf8 s = (if utf8_valid (map byte_of s) then Some s else None)"

lemma from_utf8_Some_iff [text_simps]:
  "from_utf8 s = Some t \<longleftrightarrow> t = s \<and> utf8_valid (map byte_of s)"
  by (auto simp: from_utf8_def)

lemma utf8_valid_ascii: "list_all (\<lambda>b. b < 0x80) bs \<Longrightarrow> utf8_valid bs"
  by (induction bs) auto

section \<open>Joining and characters\<close>

text \<open>\<^verbatim>\<open><[S]>::join\<close>.\<close>

fun join :: "string \<Rightarrow> string list \<Rightarrow> string" where
  "join sep [] = []"
| "join sep [s] = s"
| "join sep (s # ss) = s @ sep @ join sep ss"

text \<open>
  \<^verbatim>\<open>chars().count()\<close> of valid UTF-8 is the number of bytes that are not continuation bytes;
  \<^verbatim>\<open>char::is_control\<close> holds for U+0000 to U+001F and U+007F to U+009F, the last of which are
  encoded as C2 followed by a byte from 80 to 9F.
\<close>

definition char_count :: "string \<Rightarrow> nat" where
  "char_count s = length (filter (\<lambda>c. \<not> cont_byte (byte_of c)) s)"

fun any_control :: "string \<Rightarrow> bool" where
  "any_control [] = False"
| "any_control (c # s) =
     (byte_of c < 32 \<or> byte_of c = 127 \<or>
      (byte_of c = 0xC2 \<and> s \<noteq> [] \<and> 0x80 \<le> byte_of (hd s) \<and> byte_of (hd s) \<le> 0x9F) \<or>
      any_control s)"

lemma char_count_le: "char_count s \<le> length s"
  by (simp add: char_count_def)

lemma any_control_ascii: "\<not> any_control s \<Longrightarrow> c \<in> set s \<Longrightarrow> \<not> is_ascii_control c"
  by (induction s) (auto simp: is_ascii_control_def)

section \<open>Fixed width numbers\<close>

text \<open>
  The digits of a number to a base, most significant first and to a fixed width; with base
  256 they are \<^verbatim>\<open>to_be_bytes\<close> and \<^verbatim>\<open>from_be_bytes\<close>.
\<close>

fun be_digits :: "nat \<Rightarrow> nat \<Rightarrow> nat \<Rightarrow> nat list" where
  "be_digits b 0 n = []"
| "be_digits b (Suc k) n = be_digits b k (n div b) @ [n mod b]"

definition be_val :: "nat \<Rightarrow> nat list \<Rightarrow> nat" where
  "be_val b ds = foldl (\<lambda>v d. b * v + d) 0 ds"

definition to_be_bytes :: "nat \<Rightarrow> nat \<Rightarrow> string" where
  "to_be_bytes k n = map char_of (be_digits 256 k n)"

definition from_be_bytes :: "string \<Rightarrow> nat" where
  "from_be_bytes bs = be_val 256 (map byte_of bs)"

lemma length_be_digits [simp]: "length (be_digits b k n) = k"
  by (induction k arbitrary: n) auto

lemma be_digits_less: "0 < b \<Longrightarrow> d \<in> set (be_digits b k n) \<Longrightarrow> d < b"
  by (induction k arbitrary: n) auto

lemma be_val_snoc [simp]: "be_val b (ds @ [d]) = b * be_val b ds + d"
  by (simp add: be_val_def)

lemma be_val_be_digits: "n < b ^ k \<Longrightarrow> be_val b (be_digits b k n) = n"
proof (induction k arbitrary: n)
  case (Suc k)
  then have "n div b < b ^ k" by (simp add: less_mult_imp_div_less mult.commute)
  with Suc.IH show ?case by simp
qed (simp add: be_val_def)

lemma be_val_less: "\<forall>d \<in> set ds. d < b \<Longrightarrow> be_val b ds < b ^ length ds"
proof (induction ds rule: rev_induct)
  case (snoc d ds)
  then have "be_val b ds + 1 \<le> b ^ length ds" "d < b" by simp_all
  then have "b * (be_val b ds + 1) \<le> b * b ^ length ds" "d < b" by (meson mult_le_mono2)+
  then show ?case by (simp add: algebra_simps)
qed (simp add: be_val_def)

lemma be_digits_be_val:
  "\<forall>d \<in> set ds. d < b \<Longrightarrow> length ds = k \<Longrightarrow> be_digits b k (be_val b ds) = ds"
  by (induction ds arbitrary: k rule: rev_induct) auto

lemma length_to_be_bytes [simp]: "length (to_be_bytes k n) = k"
  by (simp add: to_be_bytes_def)

lemma from_to_be_bytes: "n < 256 ^ k \<Longrightarrow> from_be_bytes (to_be_bytes k n) = n"
proof -
  assume "n < 256 ^ k"
  moreover have "map (byte_of \<circ> char_of) (be_digits 256 k n) = be_digits 256 k n"
    by (rule map_idI) (simp add: be_digits_less)
  ultimately show ?thesis by (simp add: from_be_bytes_def to_be_bytes_def be_val_be_digits)
qed

lemma to_from_be_bytes: "length bs = k \<Longrightarrow> to_be_bytes k (from_be_bytes bs) = bs"
proof -
  assume "length bs = k"
  then have "be_digits 256 k (be_val 256 (map byte_of bs)) = map byte_of bs"
    by (intro be_digits_be_val) auto
  then show ?thesis by (simp add: to_be_bytes_def from_be_bytes_def byte_of_def map_idI)
qed

lemma from_be_bytes_less: "from_be_bytes bs < 256 ^ length bs"
  using be_val_less [of "map byte_of bs" 256] by (simp add: from_be_bytes_def)

text \<open>The half-open range of a slice that is in bounds, and division rounding up.\<close>

definition slice :: "string \<Rightarrow> nat \<Rightarrow> nat \<Rightarrow> string" where
  "slice s i j = take (j - i) (drop i s)"

definition div_ceil :: "nat \<Rightarrow> nat \<Rightarrow> nat" where
  "div_ceil a b = (a + b - 1) div b"

lemma slice_drop: "i \<le> j \<Longrightarrow> drop i s = slice s i j @ drop j s"
  by (metis append_take_drop_id drop_drop le_add_diff_inverse2 slice_def)

lemma bytes_eq: "length bs = k \<Longrightarrow> n < 256 ^ k \<Longrightarrow> from_be_bytes bs = n \<longleftrightarrow> bs = to_be_bytes k n"
  using to_from_be_bytes [of bs k] from_to_be_bytes [of n k] by metis

end
