(* ===== verification/Reconnect.thy ===== *)
theory Reconnect
  imports Bore_Prelude
begin

text \<open>
  \<^verbatim>\<open>src/src/reconnect.rs\<close>: the capped exponential backoff and the connect/serve loop that
  the client roles run. Delays are whole seconds (\<^verbatim>\<open>Duration::from_secs\<close> of a \<^verbatim>\<open>u64\<close>).
  The loop's environment (what each dial and each served connection ended with) is a list
  of rounds; with \<^verbatim>\<open>auto_reconnect\<close> the loop never returns, so what is observed of it is
  the list of sleeps it made.
\<close>

section \<open>Backoff\<close>

definition default_initial_backoff_secs :: nat where "default_initial_backoff_secs = 1"
definition default_max_backoff_secs :: nat where "default_max_backoff_secs = 8"

record backoff =
  next_secs :: nat
  max_secs :: nat
  initial_secs :: nat

definition backoff_new_with :: "nat \<Rightarrow> nat \<Rightarrow> backoff" where
  "backoff_new_with initial mx =
     \<lparr>next_secs = min initial mx, max_secs = mx, initial_secs = initial\<rparr>"

definition backoff_new :: backoff where
  "backoff_new = backoff_new_with default_initial_backoff_secs default_max_backoff_secs"


definition backoff_next_delay :: "backoff \<Rightarrow> nat \<times> backoff" where
  "backoff_next_delay b =
     (next_secs b,
      b\<lparr>next_secs := min (saturating_mul_u64 (next_secs b) 2) (max_secs b)\<rparr>)"

definition backoff_reset :: "backoff \<Rightarrow> backoff" where
  "backoff_reset b = b\<lparr>next_secs := initial_secs b\<rparr>"

section \<open>The connect/serve loop\<close>

text \<open>
  One round of the environment: the dial failed, or it succeeded and the connection was
  served until it ended, with or without an error.
\<close>

datatype 'e round = Connect_failed 'e | Served "('e, unit) result"

text \<open>What is seen of \<open>run\<close>: it returned, or it is still looping after these sleeps.\<close>

datatype 'e run_obs = Returned "('e, unit) result" | Looping "nat list"

fun run_loop :: "backoff \<Rightarrow> 'e round list \<Rightarrow> nat list" where
  "run_loop b [] = []"
| "run_loop b (r # rs) =
     (let b1 = (case r of Connect_failed _ \<Rightarrow> b | Served _ \<Rightarrow> backoff_reset b);
          (delay, b2) = backoff_next_delay b1
      in delay # run_loop b2 rs)"

definition run :: "bool \<Rightarrow> 'e round list \<Rightarrow> 'e run_obs" where
  "run auto_reconnect rounds =
     (if \<not> auto_reconnect
      then (case rounds of
              [] \<Rightarrow> Looping []
            | Connect_failed e # _ \<Rightarrow> Returned (Inl e)
            | Served r # _ \<Rightarrow> Returned r)
      else Looping (run_loop backoff_new rounds))"

section \<open>Facts about the backoff\<close>

lemma backoff_new_simps [simp]:
  "next_secs backoff_new = 1" "max_secs backoff_new = 8" "initial_secs backoff_new = 1"
  by (simp_all add: backoff_new_def backoff_new_with_def default_initial_backoff_secs_def
      default_max_backoff_secs_def)

lemma backoff_next_delay_fields [simp]:
  "fst (backoff_next_delay b) = next_secs b"
  "max_secs (snd (backoff_next_delay b)) = max_secs b"
  "initial_secs (snd (backoff_next_delay b)) = initial_secs b"
  "next_secs (snd (backoff_next_delay b)) =
     min (saturating_mul_u64 (next_secs b) 2) (max_secs b)"
  by (simp_all add: backoff_next_delay_def)

lemma backoff_reset_fields [simp]:
  "next_secs (backoff_reset b) = initial_secs b"
  "max_secs (backoff_reset b) = max_secs b"
  "initial_secs (backoff_reset b) = initial_secs b"
  by (simp_all add: backoff_reset_def)

fun delays :: "nat \<Rightarrow> backoff \<Rightarrow> nat list" where
  "delays 0 b = []"
| "delays (Suc n) b = fst (backoff_next_delay b) # delays n (snd (backoff_next_delay b))"

text \<open>Doubling a capped power is the next capped power, whatever saturates first.\<close>

lemma capped_double:
  assumes "m \<le> u64_max"
  shows "min (saturating_mul_u64 (min (i * 2 ^ k) m) 2) m = min (i * 2 ^ Suc k) m"
  using assms by (auto simp: saturating_mul_u64_def min_def)

lemma delays_closed_form_aux:
  assumes "max_secs b \<le> u64_max" "next_secs b = min (i * 2 ^ k) (max_secs b)"
  shows "delays n b = map (\<lambda>j. min (i * 2 ^ (k + j)) (max_secs b)) [0..<n]"
  using assms
proof (induction n arbitrary: b k)
  case 0
  then show ?case by simp
next
  case (Suc n)
  let ?b' = "snd (backoff_next_delay b)"
  have "next_secs ?b' = min (i * 2 ^ Suc k) (max_secs ?b')"
    using Suc.prems by (simp add: capped_double del: power_Suc)
  then have "delays n ?b' = map (\<lambda>j. min (i * 2 ^ (Suc k + j)) (max_secs b)) [0..<n]"
    using Suc.IH [of ?b' "Suc k"] Suc.prems(1) by simp
  moreover have "[0..<Suc n] = 0 # map Suc [0..<n]"
    by (simp add: map_Suc_upt upt_conv_Cons del: upt_Suc)
  ultimately show ?case
    using Suc.prems(2) by (simp add: comp_def del: upt_Suc)
qed

text \<open>
  The delays drawn from \<^verbatim>\<open>Backoff::new_with(initial, max)\<close> are the capped doubling
  sequence: the \<open>k\<close>-th delay is \<open>min (initial * 2^k) max\<close>, for every \<open>initial\<close> and every
  \<^verbatim>\<open>u64\<close> cap, so the saturating multiplication is never seen.
\<close>

theorem backoff_delays_closed_form:
  assumes "m \<le> u64_max"
  shows "delays n (backoff_new_with i m) = map (\<lambda>k. min (i * 2 ^ k) m) [0..<n]"
  using assms delays_closed_form_aux [of "backoff_new_with i m" i 0 n]
  by (simp add: backoff_new_with_def)

theorem backoff_delays_closed_form_witness:
  "delays 9 (backoff_new_with 2 256) = [2, 4, 8, 16, 32, 64, 128, 256, 256]"
proof -
  have "(256::nat) \<le> u64_max" by (simp add: u64_max_def)
  from backoff_delays_closed_form [OF this, of 9 2] show ?thesis
    by (simp add: upt_rec)
qed



section \<open>A retry policy, and the loop over it\<close>

text \<open>
  What the loop relies on: a state it draws delays from and resets, with an invariant that
  keeps every delay inside fixed bounds.
\<close>

locale retry_policy =
  fixes draw :: "'s \<Rightarrow> nat \<times> 's"
    and reset :: "'s \<Rightarrow> 's"
    and invar :: "'s \<Rightarrow> bool"
    and lo hi :: nat
  assumes draw_invar: "invar s \<Longrightarrow> invar (snd (draw s))"
    and reset_invar: "invar s \<Longrightarrow> invar (reset s)"
    and draw_bounds: "invar s \<Longrightarrow> lo \<le> fst (draw s) \<and> fst (draw s) \<le> hi"
    and reset_least: "invar s \<Longrightarrow> fst (draw (reset s)) = lo"
begin

fun policy_loop :: "'s \<Rightarrow> bool list \<Rightarrow> nat list" where
  "policy_loop s [] = []"
| "policy_loop s (ok # oks) =
     (let s1 = (if ok then reset s else s)
      in fst (draw s1) # policy_loop (snd (draw s1)) oks)"

lemma policy_loop_bounds:
  "invar s \<Longrightarrow> d \<in> set (policy_loop s oks) \<Longrightarrow> lo \<le> d \<and> d \<le> hi"
proof (induction oks arbitrary: s)
  case Nil
  then show ?case by simp
next
  case (Cons ok oks)
  let ?s1 = "if ok then reset s else s"
  have inv: "invar ?s1" using Cons.prems(1) reset_invar by simp
  from Cons.prems(2) consider "d = fst (draw ?s1)" | "d \<in> set (policy_loop (snd (draw ?s1)) oks)"
    by (auto simp: Let_def)
  then show ?case
    using Cons.IH [OF draw_invar [OF inv]] draw_bounds [OF inv] by cases auto
qed

lemma policy_loop_after_success:
  "invar s \<Longrightarrow> i < length oks \<Longrightarrow> oks ! i \<Longrightarrow> policy_loop s oks ! i = lo"
proof (induction oks arbitrary: s i)
  case Nil
  then show ?case by simp
next
  case (Cons ok oks)
  have inv: "invar (if ok then reset s else s)" using Cons.prems(1) reset_invar by simp
  show ?case
  proof (cases i)
    case 0
    with Cons.prems show ?thesis by (simp add: reset_least)
  next
    case (Suc j)
    with Cons.prems Cons.IH [OF draw_invar [OF inv], of j] show ?thesis
      by (simp add: Let_def)
  qed
qed

lemma length_policy_loop [simp]: "length (policy_loop s oks) = length oks"
  by (induction oks arbitrary: s) (simp_all add: Let_def)

end

definition backoff_default_inv :: "backoff \<Rightarrow> bool" where
  "backoff_default_inv b \<longleftrightarrow>
     1 \<le> next_secs b \<and> next_secs b \<le> 8 \<and> max_secs b = 8 \<and> initial_secs b = 1"

interpretation reconnect_backoff: retry_policy backoff_next_delay backoff_reset backoff_default_inv 1 8
  by unfold_locales
    (auto simp: backoff_default_inv_def saturating_mul_u64_def u64_max_def min_def)

definition served :: "'e round \<Rightarrow> bool" where
  "served r = (case r of Connect_failed _ \<Rightarrow> False | Served _ \<Rightarrow> True)"

lemma run_loop_eq_policy:
  "run_loop b rs = reconnect_backoff.policy_loop b (map served rs)"
  by (induction rs arbitrary: b)
    (auto simp: Let_def served_def split_beta split: round.splits)

text \<open>
  C15. With automatic reconnection the loop never returns, sleeps between one and eight
  seconds before every further dial, and sleeps exactly one second after a connection that
  was established, however long the outage before it was.
\<close>

theorem reconnect_waits_bounded:
  "\<exists>ds. run True rounds = Looping ds \<and> length ds = length rounds \<and>
     (\<forall>i < length rounds. 1 \<le> ds ! i \<and> ds ! i \<le> 8) \<and>
     (\<forall>i < length rounds. served (rounds ! i) \<longrightarrow> ds ! i = 1)"
proof -
  let ?ds = "reconnect_backoff.policy_loop backoff_new (map served rounds)"
  have inv: "backoff_default_inv backoff_new" by (simp add: backoff_default_inv_def)
  have "1 \<le> ?ds ! i \<and> ?ds ! i \<le> 8" if "i < length rounds" for i
    using reconnect_backoff.policy_loop_bounds [OF inv, of "?ds ! i" "map served rounds"] that by simp
  moreover have "?ds ! i = 1" if "i < length rounds" "served (rounds ! i)" for i
    using reconnect_backoff.policy_loop_after_success [OF inv, of i "map served rounds"] that by simp
  ultimately show ?thesis by (simp add: run_def run_loop_eq_policy)
qed

theorem reconnect_waits_bounded_witness:
  "\<exists>ds. run True [Connect_failed (), Connect_failed (), Connect_failed (), Served (Inr ())]
        = Looping ds \<and> ds ! 3 = 1 \<and> ds ! 2 \<le> 8"
  using reconnect_waits_bounded
    [of "[Connect_failed (), Connect_failed (), Connect_failed (), Served (Inr ())]"]
  by (force simp: served_def)

end
