(* ===== verification/Liveness.thy ===== *)
theory Liveness
  imports Rust_Text
begin

text \<open>
  \<^verbatim>\<open>src/src/liveness.rs\<close> and the part of \<^verbatim>\<open>src/src/mux.rs\<close> it reads (\<^verbatim>\<open>Activity\<close>,
  \<^verbatim>\<open>ConnActivity\<close>): when a connection counts as dead. A \<^verbatim>\<open>Duration\<close> and an \<^verbatim>\<open>Instant\<close> are
  numbers of nanoseconds; the clock is the explicit argument \<open>now\<close>. A \<^verbatim>\<open>ConnActivity\<close> is a
  shared handle (\<^verbatim>\<open>Arc\<close>), so connections live in a store and handles are their addresses.
\<close>

section \<open>Durations\<close>

type_synonym duration = nat
type_synonym instant = nat

definition from_millis :: "nat \<Rightarrow> duration" where "from_millis ms = ms * 1000000"
definition from_secs :: "nat \<Rightarrow> duration" where "from_secs s = s * 1000000000"
definition as_millis :: "duration \<Rightarrow> nat" where "as_millis d = d div 1000000"

definition duration_max :: duration where
  "duration_max = u64_max * 1000000000 + 999999999"

definition duration_clamp :: "duration \<Rightarrow> duration \<Rightarrow> duration \<Rightarrow> duration" where
  "duration_clamp d lo hi = (if d < lo then lo else if hi < d then hi else d)"

lemmas duration_defs [machine_simps] = from_millis_def from_secs_def as_millis_def

section \<open>Constants of the policy\<close>

definition ctrl_client_heartbeat_default :: duration where
  "ctrl_client_heartbeat_default = from_secs 2"

definition client_silence_deadline_default :: duration where
  "client_silence_deadline_default = from_secs 15"

definition transport_reap_floor :: duration where
  "transport_reap_floor = from_secs 15"

definition transport_reap_multiplier :: nat where
  "transport_reap_multiplier = 3"

definition deadline_cap :: duration where
  "deadline_cap = from_secs 3600"

definition silence_min :: duration where
  "silence_min = from_millis 100"

lemmas liveness_consts [machine_simps] =
  ctrl_client_heartbeat_default_def client_silence_deadline_default_def
  transport_reap_floor_def transport_reap_multiplier_def deadline_cap_def silence_min_def

section \<open>Intervals and deadlines\<close>

text \<open>The environment variable is an argument: \<open>None\<close> when it is not set.\<close>

definition ctrl_client_heartbeat :: "string option \<Rightarrow> duration" where
  "ctrl_client_heartbeat env =
     (case env of
        Some ms \<Rightarrow>
          (case parse_u64 ms of
             Some n \<Rightarrow> if 0 < n then from_millis n else ctrl_client_heartbeat_default
           | None \<Rightarrow> ctrl_client_heartbeat_default)
      | None \<Rightarrow> ctrl_client_heartbeat_default)"

definition declared_ms_for :: "duration \<Rightarrow> nat" where
  "declared_ms_for interval =
     max (if as_millis interval \<le> u32_max then as_millis interval else u32_max) 1"

definition ctrl_heartbeat_declared_ms :: "string option \<Rightarrow> nat" where
  "ctrl_heartbeat_declared_ms env = declared_ms_for (ctrl_client_heartbeat env)"

definition parse_silence_ms :: "string option \<Rightarrow> duration option" where
  "parse_silence_ms raw =
     (case map_option (\<lambda>s. parse_u64 (trim s)) raw of
        Some (Some ms) \<Rightarrow>
          if ms = 0 then None
          else Some (duration_clamp (from_millis ms) silence_min deadline_cap)
      | _ \<Rightarrow> Some client_silence_deadline_default)"

definition client_silence_deadline :: "string option \<Rightarrow> duration option" where
  "client_silence_deadline env = parse_silence_ms env"

definition liveness_tick :: "duration \<Rightarrow> duration" where
  "liveness_tick deadline = duration_clamp (deadline div 4) (from_millis 50) (from_secs 1)"

definition transport_reap_deadline :: "nat \<Rightarrow> duration \<Rightarrow> duration option" where
  "transport_reap_deadline declared_ms floor_d =
     (if declared_ms = 0 then None
      else let beats = min (from_millis declared_ms * transport_reap_multiplier) duration_max
           in Some (min (max beats floor_d) deadline_cap))"

section \<open>Activity of one connection\<close>

record activity =
  base :: instant
  last_inbound_ms :: nat
  cancelled :: bool

definition activity_new :: "instant \<Rightarrow> activity" where
  "activity_new now = \<lparr>base = now, last_inbound_ms = 0, cancelled = False\<rparr>"

definition elapsed :: "activity \<Rightarrow> instant \<Rightarrow> duration" where
  "elapsed a now = now - base a"

definition stamp :: "activity \<Rightarrow> instant \<Rightarrow> activity" where
  "stamp a now =
     a\<lparr>last_inbound_ms :=
         (if as_millis (elapsed a now) \<le> u64_max then as_millis (elapsed a now) else u64_max)\<rparr>"

definition inbound_idle :: "activity \<Rightarrow> instant \<Rightarrow> duration" where
  "inbound_idle a now = elapsed a now - from_millis (last_inbound_ms a)"

definition reap_due :: "activity \<Rightarrow> duration option \<Rightarrow> instant \<Rightarrow> bool" where
  "reap_due a deadline now =
     (case deadline of None \<Rightarrow> False | Some d \<Rightarrow> d \<le> inbound_idle a now)"

definition terminate_conn :: "activity \<Rightarrow> activity" where
  "terminate_conn a = a\<lparr>cancelled := True\<rparr>"

definition is_terminated :: "activity \<Rightarrow> bool" where
  "is_terminated a = cancelled a"

section \<open>The store of connections, reapers and carrier sets\<close>

type_synonym conn = nat
type_synonym conns = "conn \<Rightarrow> activity"

record transport_reaper =
  reaper_conn :: conn
  reaper_deadline :: duration

definition reaper_new :: "conn \<Rightarrow> nat \<Rightarrow> duration \<Rightarrow> transport_reaper option" where
  "reaper_new c declared_ms floor_d =
     map_option (\<lambda>d. \<lparr>reaper_conn = c, reaper_deadline = d\<rparr>)
       (transport_reap_deadline declared_ms floor_d)"

definition reaper_reap_if_due ::
  "transport_reaper \<Rightarrow> instant \<Rightarrow> conns \<Rightarrow> duration option \<times> conns" where
  "reaper_reap_if_due r now \<sigma> =
     (let a = \<sigma> (reaper_conn r)
      in if \<not> reap_due a (Some (reaper_deadline r)) now then (None, \<sigma>)
         else (Some (inbound_idle a now), \<sigma>(reaper_conn r := terminate_conn a)))"

definition reap_if_due ::
  "transport_reaper option \<Rightarrow> instant \<Rightarrow> conns \<Rightarrow> duration option \<times> conns" where
  "reap_if_due r now \<sigma> =
     (case r of None \<Rightarrow> (None, \<sigma>) | Some r \<Rightarrow> reaper_reap_if_due r now \<sigma>)"

text \<open>\<^verbatim>\<open>ConnActivities\<close>: the handles of a tunnel's extra carriers, in tracking order.\<close>

type_synonym conn_activities = "conn list"

definition track :: "conn \<Rightarrow> conn_activities \<Rightarrow> conn_activities" where
  "track c cs = cs @ [c]"

definition forget :: "conn \<Rightarrow> conn_activities \<Rightarrow> conn_activities" where
  "forget c cs = filter (\<lambda>tracked. tracked \<noteq> c) cs"

definition terminate_all :: "conn_activities \<times> conns \<Rightarrow> nat \<times> conn_activities \<times> conns" where
  "terminate_all s =
     (case s of (cs, \<sigma>) \<Rightarrow>
        (length cs, [], fold (\<lambda>c \<sigma>. \<sigma>(c := terminate_conn (\<sigma> c))) cs \<sigma>))"

section \<open>Deadlines\<close>

text \<open>
  The override of the client's silence deadline disables detection only for an explicit
  zero: every other text, well formed or not, and no text at all leave a deadline between
  100 milliseconds and one hour.
\<close>

theorem parse_silence_ms_spec:
  "(parse_silence_ms raw = None \<longleftrightarrow> (\<exists>s. raw = Some s \<and> parse_u64 (trim s) = Some 0)) \<and>
   (\<forall>d. parse_silence_ms raw = Some d \<longrightarrow> from_millis 100 \<le> d \<and> d \<le> from_secs 3600)"
  by (auto simp: parse_silence_ms_def duration_clamp_def machine_simps split: option.splits)

theorem parse_silence_ms_spec_witness:
  "parse_silence_ms (Some ''abc'') = Some (from_secs 15) \<and>
   from_secs 15 \<le> from_secs 3600"
proof -
  have "trim ''abc'' = ''abc''" by code_simp
  moreover have "parse_u64 ''abc'' = None" by (simp add: parse_unsigned_def is_ascii_digit_def byte_of_def)
  ultimately have "parse_silence_ms (Some ''abc'') = Some (from_secs 15)"
    by (simp add: parse_silence_ms_def client_silence_deadline_default_def)
  with parse_silence_ms_spec [of "Some ''abc''"] show ?thesis by blast
qed



section \<open>Silence detection\<close>

text \<open>
  The contract of a silence detector: after bytes seen at \<open>t\<close> it is never due before the
  deadline less a slack, and always due from the deadline on.
\<close>

locale silence_detector =
  fixes stamp_at :: "'a \<Rightarrow> instant \<Rightarrow> 'a"
    and due :: "'a \<Rightarrow> duration \<Rightarrow> instant \<Rightarrow> bool"
    and valid :: "'a \<Rightarrow> instant \<Rightarrow> bool"
    and slack :: duration
  assumes valid_stamp: "valid a t \<Longrightarrow> valid (stamp_at a t) t"
    and valid_mono: "valid a t \<Longrightarrow> t \<le> t' \<Longrightarrow> t' \<le> hor \<Longrightarrow> valid a hor \<Longrightarrow> valid a t'"
    and never_early: "valid a t \<Longrightarrow> t \<le> now \<Longrightarrow> due (stamp_at a t) d now \<Longrightarrow> d < (now - t) + slack"
    and prompt: "valid a t \<Longrightarrow> t \<le> now \<Longrightarrow> d \<le> now - t \<Longrightarrow> due (stamp_at a t) d now"
begin

fun stamp_all :: "'a \<Rightarrow> instant list \<Rightarrow> 'a" where
  "stamp_all a [] = a"
| "stamp_all a (t # ts) = stamp_all (stamp_at a t) ts"

lemma stamp_all_snoc: "stamp_all a (ts @ [t]) = stamp_at (stamp_all a ts) t"
  by (induction ts arbitrary: a) simp_all

lemma beating_peer_survives:
  assumes "valid (stamp_all a ts) t" "t \<le> now" "(now - t) + slack \<le> d"
  shows "\<not> due (stamp_all a (ts @ [t])) d now"
  using never_early [OF assms(1,2), of d] assms(3) by (auto simp: stamp_all_snoc)

lemma silent_peer_detected:
  assumes "valid (stamp_all a ts) t" "t \<le> now" "d \<le> now - t"
  shows "due (stamp_all a (ts @ [t])) d now"
  using prompt [OF assms] by (simp add: stamp_all_snoc)

end

definition clock_valid :: "activity \<Rightarrow> instant \<Rightarrow> bool" where
  "clock_valid a t \<longleftrightarrow> base a \<le> t \<and> as_millis (t - base a) \<le> u64_max"

lemma base_stamp [simp]: "base (stamp a t) = base a"
  by (simp add: stamp_def)

lemma millis_floor: "from_millis (as_millis d) \<le> d" "d < from_millis (as_millis d) + 1000000"
proof -
  have "d div 1000000 * 1000000 + d mod 1000000 = d" by (rule div_mult_mod_eq)
  moreover have "d mod 1000000 < 1000000" by simp
  ultimately show "from_millis (as_millis d) \<le> d" "d < from_millis (as_millis d) + 1000000"
    unfolding from_millis_def as_millis_def by linarith+
qed

lemma inbound_idle_stamp:
  assumes "clock_valid a t" "t \<le> now"
  shows "inbound_idle (stamp a t) now =
         (now - t) + ((t - base a) - from_millis (as_millis (t - base a)))"
proof -
  have "last_inbound_ms (stamp a t) = as_millis (t - base a)"
    using assms(1) by (simp add: stamp_def elapsed_def clock_valid_def)
  then have "inbound_idle (stamp a t) now = (now - base a) - from_millis (as_millis (t - base a))"
    by (simp add: inbound_idle_def elapsed_def)
  moreover have "now - base a = (now - t) + (t - base a)"
    using assms by (simp add: clock_valid_def)
  ultimately show ?thesis using millis_floor(1) [of "t - base a"] by linarith
qed

interpretation conn_silence: silence_detector stamp "\<lambda>a d now. reap_due a (Some d) now" clock_valid 1000000
proof unfold_locales
  fix a :: activity and t
  assume "clock_valid a t"
  then show "clock_valid (stamp a t) t" by (simp add: clock_valid_def)
next
  fix a :: activity and t t' hor
  assume "clock_valid a t" "t \<le> t'" "t' \<le> hor" "clock_valid a hor"
  then show "clock_valid a t'"
    by (auto simp: clock_valid_def as_millis_def
        intro: order_trans [OF div_le_mono])
next
  fix a :: activity and t now :: instant and d
  assume h: "clock_valid a t" "t \<le> now" "reap_due (stamp a t) (Some d) now"
  then have "d \<le> inbound_idle (stamp a t) now" by (simp add: reap_due_def)
  with inbound_idle_stamp [OF h(1,2)] millis_floor(2) [of "t - base a"]
  show "d < now - t + 1000000" by linarith
next
  fix a :: activity and t now :: instant and d
  assume h: "clock_valid a t" "t \<le> now" "d \<le> now - t"
  then show "reap_due (stamp a t) (Some d) now"
    using inbound_idle_stamp [OF h(1,2)] by (simp add: reap_due_def)
qed

text \<open>
  C14. The transport reaper is exact up to the millisecond the activity stamp is kept in:
  whatever bytes came before, a connection whose last byte came at \<open>t\<close> is reaped at no
  \<open>now\<close> with \<open>now - t\<close> at least a millisecond below the deadline, and is reaped, and then
  terminated, at every \<open>now\<close> with \<open>now - t\<close> at or above it.
\<close>

theorem reaper_exact:
  assumes "clock_valid (conn_silence.stamp_all a ts) t" "t \<le> now"
    and "\<sigma> (reaper_conn r) = conn_silence.stamp_all a (ts @ [t])"
  shows "(now - t + 1000000 \<le> reaper_deadline r \<longrightarrow> reaper_reap_if_due r now \<sigma> = (None, \<sigma>)) \<and>
    (reaper_deadline r \<le> now - t \<longrightarrow>
       (\<exists>idle \<sigma>'. reaper_reap_if_due r now \<sigma> = (Some idle, \<sigma>') \<and> reaper_deadline r \<le> idle \<and>
          is_terminated (\<sigma>' (reaper_conn r)) \<and> (\<forall>c. c \<noteq> reaper_conn r \<longrightarrow> \<sigma>' c = \<sigma> c)))"
proof (intro conjI impI)
  assume "now - t + 1000000 \<le> reaper_deadline r"
  from conn_silence.beating_peer_survives [OF assms(1,2) this]
  show "reaper_reap_if_due r now \<sigma> = (None, \<sigma>)"
    by (simp add: reaper_reap_if_due_def assms(3))
next
  assume "reaper_deadline r \<le> now - t"
  from conn_silence.silent_peer_detected [OF assms(1,2) this]
  show "\<exists>idle \<sigma>'. reaper_reap_if_due r now \<sigma> = (Some idle, \<sigma>') \<and> reaper_deadline r \<le> idle \<and>
          is_terminated (\<sigma>' (reaper_conn r)) \<and> (\<forall>c. c \<noteq> reaper_conn r \<longrightarrow> \<sigma>' c = \<sigma> c)"
    by (auto simp: reaper_reap_if_due_def assms(3) reap_due_def is_terminated_def
        terminate_conn_def Let_def)
qed

theorem reaper_exact_witness:
  "\<exists>idle \<sigma>'. reaper_reap_if_due \<lparr>reaper_conn = 7, reaper_deadline = from_secs 15\<rparr> (from_secs 40)
      (\<lambda>_. stamp (activity_new 0) (from_secs 20)) = (Some idle, \<sigma>') \<and> is_terminated (\<sigma>' 7)"
proof -
  let ?r = "\<lparr>reaper_conn = 7, reaper_deadline = from_secs 15\<rparr>"
  let ?\<sigma> = "\<lambda>_ :: conn. stamp (activity_new 0) (from_secs 20)"
  have "clock_valid (conn_silence.stamp_all (activity_new 0) []) (from_secs 20)"
    by (simp add: clock_valid_def activity_new_def machine_simps)
  moreover have "from_secs 20 \<le> from_secs 40" by (simp add: machine_simps)
  moreover have "?\<sigma> (reaper_conn ?r) = conn_silence.stamp_all (activity_new 0) ([] @ [from_secs 20])"
    by simp
  ultimately have "reaper_deadline ?r \<le> from_secs 40 - from_secs 20 \<longrightarrow>
       (\<exists>idle \<sigma>'. reaper_reap_if_due ?r (from_secs 40) ?\<sigma> = (Some idle, \<sigma>') \<and> reaper_deadline ?r \<le> idle \<and>
          is_terminated (\<sigma>' (reaper_conn ?r)) \<and> (\<forall>c. c \<noteq> reaper_conn ?r \<longrightarrow> \<sigma>' c = ?\<sigma> c))"
    by (rule reaper_exact [THEN conjunct2])
  moreover have "reaper_deadline ?r \<le> from_secs 40 - from_secs 20" by (simp add: machine_simps)
  ultimately show ?thesis by auto
qed

section \<open>Polling\<close>

lemma liveness_tick_bounds:
  "from_millis 50 \<le> liveness_tick d" "liveness_tick d \<le> from_secs 1"
  by (simp_all add: liveness_tick_def duration_clamp_def machine_simps)

section \<open>Tearing the whole tunnel down\<close>

lemma terminate_fold:
  "fold (\<lambda>c \<sigma>. \<sigma>(c := terminate_conn (\<sigma> c))) cs \<sigma> c =
     (if c \<in> set cs then terminate_conn (\<sigma> c) else \<sigma> c)"
  by (induction cs arbitrary: \<sigma>) (auto simp: terminate_conn_def)

datatype carrier_op = Track conn | Forget conn

fun carrier_step :: "conn_activities \<Rightarrow> carrier_op \<Rightarrow> conn_activities" where
  "carrier_step cs (Track c) = track c cs"
| "carrier_step cs (Forget c) = forget c cs"

text \<open>A carrier is tracked when its last operation tracked it.\<close>

definition tracked_after :: "carrier_op list \<Rightarrow> conn \<Rightarrow> bool" where
  "tracked_after ops c \<longleftrightarrow>
     (\<exists>pre post. ops = pre @ Track c # post \<and> Forget c \<notin> set post)"

lemma carrier_ops_tracked:
  "c \<in> set (foldl carrier_step [] ops) \<longleftrightarrow> tracked_after ops c"
proof (induction ops rule: rev_induct)
  case Nil
  then show ?case by (simp add: tracked_after_def)
next
  case (snoc op ops)
  have "tracked_after (ops @ [op]) c \<longleftrightarrow> op = Track c \<or> (op \<noteq> Forget c \<and> tracked_after ops c)"
  proof
    assume "tracked_after (ops @ [op]) c"
    then obtain pre post where p: "ops @ [op] = pre @ Track c # post" "Forget c \<notin> set post"
      by (auto simp: tracked_after_def)
    show "op = Track c \<or> (op \<noteq> Forget c \<and> tracked_after ops c)"
    proof (cases post rule: rev_cases)
      case Nil
      with p show ?thesis by simp
    next
      case (snoc post' x)
      with p have "ops = pre @ Track c # post'" "x = op" by simp_all
      with p snoc show ?thesis by (auto simp: tracked_after_def)
    qed
  next
    assume "op = Track c \<or> (op \<noteq> Forget c \<and> tracked_after ops c)"
    then show "tracked_after (ops @ [op]) c"
    proof
      assume "op = Track c"
      then show ?thesis unfolding tracked_after_def by (intro exI [of _ ops] exI [of _ "[]"]) simp
    next
      assume h: "op \<noteq> Forget c \<and> tracked_after ops c"
      then obtain pre post where "ops = pre @ Track c # post" "Forget c \<notin> set post"
        by (auto simp: tracked_after_def)
      with h show ?thesis
        unfolding tracked_after_def by (intro exI [of _ pre] exI [of _ "post @ [op]"]) auto
    qed
  qed
  with snoc show ?case by (cases op) (auto simp: track_def forget_def)
qed

text \<open>
  When the main connection trips, \<^verbatim>\<open>terminate_all\<close> terminates exactly the carriers that
  were tracked and not forgotten since, leaves every other connection alone, and leaves the
  set empty, so a second trip terminates nothing.
\<close>

theorem terminate_all_exact:
  assumes "terminate_all (foldl carrier_step [] ops, \<sigma>) = (n, cs', \<sigma>')"
  shows "(\<forall>c. \<sigma>' c = (if tracked_after ops c then terminate_conn (\<sigma> c) else \<sigma> c)) \<and>
         cs' = [] \<and> terminate_all (cs', \<sigma>') = (0, [], \<sigma>')"
  using assms by (auto simp: terminate_all_def terminate_fold carrier_ops_tracked)

theorem terminate_all_exact_witness:
  "\<exists>n \<sigma>'. terminate_all (foldl carrier_step [] [Track 1, Track 2, Forget 1], \<lambda>_. activity_new 0)
           = (n, [], \<sigma>') \<and> is_terminated (\<sigma>' 2) \<and> \<not> is_terminated (\<sigma>' 1)"
proof -
  obtain n cs' \<sigma>' where e: "terminate_all (foldl carrier_step [] [Track 1, Track 2, Forget 1],
      \<lambda>_. activity_new 0) = (n, cs', \<sigma>')"
    using prod_cases3 by blast
  have t: "tracked_after [Track 1, Track 2, Forget 1] 2" "\<not> tracked_after [Track 1, Track 2, Forget 1] 1"
    unfolding carrier_ops_tracked [symmetric] by (simp_all add: track_def forget_def)
  from terminate_all_exact [OF e] t e show ?thesis
    by (auto simp: is_terminated_def terminate_conn_def activity_new_def)
qed

end
