(* ===== verification/Carrier_Pool.thy ===== *)
theory Carrier_Pool
  imports Bore_Prelude
begin

text \<open>
  \<^verbatim>\<open>src/src/pool.rs\<close>: the round-robin pool of carriers of a tunnel and the accounting of
  bulk connections. The flags and counters the code shares through \<^verbatim>\<open>Arc\<close> live in a heap, and
  a carrier or a ticket holds their addresses; the opener of a connection is an opaque
  value of type \<open>'o\<close>. \<^verbatim>\<open>BulkTicket::record\<close> is modelled twice: as one call, and as the
  sequence of its atomic operations, so that concurrent calls can be interleaved.
\<close>

section \<open>Heap of shared cells\<close>

record heap =
  flags :: "nat \<Rightarrow> bool"
  counters :: "nat \<Rightarrow> nat"
  fresh :: nat

definition usize_max :: nat where "usize_max = u64_max"

definition fetch_add :: "nat \<Rightarrow> nat \<Rightarrow> heap \<Rightarrow> heap" where
  "fetch_add c n h = h\<lparr>counters := (counters h)(c := wrapping_add_u64 (counters h c) n)\<rparr>"

definition fetch_sub :: "nat \<Rightarrow> nat \<Rightarrow> heap \<Rightarrow> heap" where
  "fetch_sub c n h = h\<lparr>counters := (counters h)(c := wrapping_sub_u64 (counters h c) n)\<rparr>"

section \<open>Carriers and the pool\<close>

record 'o carrier =
  opener :: 'o
  alive :: nat
  bulk :: nat

definition carrier_new :: "'o \<Rightarrow> heap \<Rightarrow> 'o carrier \<times> heap" where
  "carrier_new op h =
     (\<lparr>opener = op, alive = fresh h, bulk = fresh h\<rparr>,
      h\<lparr>flags := (flags h)(fresh h := True), counters := (counters h)(fresh h := 0),
        fresh := Suc (fresh h)\<rparr>)"

record 'o carrier_pool =
  carriers :: "'o carrier list"
  cursor :: nat

definition pool_new :: "'o \<Rightarrow> heap \<Rightarrow> 'o carrier_pool \<times> heap" where
  "pool_new first h =
     (let (c, h') = carrier_new first h in (\<lparr>carriers = [c], cursor = 0\<rparr>, h'))"

definition pool_push :: "'o carrier \<Rightarrow> nat \<Rightarrow> 'o carrier_pool \<Rightarrow> bool \<times> 'o carrier_pool" where
  "pool_push c mx p =
     (if mx \<le> length (carriers p) then (False, p)
      else (True, p\<lparr>carriers := carriers p @ [c]\<rparr>))"

definition pool_len :: "'o carrier_pool \<Rightarrow> nat" where
  "pool_len p = length (carriers p)"

definition retain_alive :: "heap \<Rightarrow> 'o carrier_pool \<Rightarrow> 'o carrier_pool" where
  "retain_alive h p = p\<lparr>carriers := filter (\<lambda>c. flags h (alive c)) (carriers p)\<rparr>"

definition advance :: "'o carrier_pool \<Rightarrow> 'o carrier_pool" where
  "advance p = p\<lparr>cursor := wrapping_add_u64 (cursor p) 1\<rparr>"

definition pool_pick :: "heap \<Rightarrow> 'o carrier_pool \<Rightarrow> 'o option \<times> 'o carrier_pool" where
  "pool_pick h p0 =
     (let p = retain_alive h p0
      in if carriers p = [] then (None, p)
         else let idx = cursor p mod length (carriers p)
              in (Some (opener (carriers p ! idx)), advance p))"

definition choose_step :: "nat list \<Rightarrow> nat \<Rightarrow> nat \<times> nat \<Rightarrow> nat \<Rightarrow> nat \<times> nat" where
  "choose_step loads start b step =
     (case b of (best, best_load) \<Rightarrow>
        let idx = (start + step) mod length loads
        in if loads ! idx < best_load then (idx, loads ! idx) else (best, best_load))"

definition choose_carrier :: "nat list \<Rightarrow> nat \<Rightarrow> nat" where
  "choose_carrier loads start =
     fst (foldl (choose_step loads start) (start, loads ! start) [1..<length loads])"

record 'o carrier_pick =
  pick_opener :: 'o
  pick_bulk :: nat
  bulk_load :: nat
  pick_pool_len :: nat

definition pool_pick_avoiding_bulk ::
  "heap \<Rightarrow> 'o carrier_pool \<Rightarrow> 'o carrier_pick option \<times> 'o carrier_pool" where
  "pool_pick_avoiding_bulk h p0 =
     (let p = retain_alive h p0
      in if carriers p = [] then (None, p)
         else let start = cursor p mod length (carriers p);
                  loads = map (\<lambda>c. counters h (bulk c)) (carriers p);
                  best = choose_carrier loads start
              in (Some \<lparr>pick_opener = opener (carriers p ! best),
                        pick_bulk = bulk (carriers p ! best),
                        bulk_load = loads ! best,
                        pick_pool_len = length (carriers p)\<rparr>, advance p))"

definition pool_bulk_loads :: "heap \<Rightarrow> 'o carrier_pool \<Rightarrow> nat list" where
  "pool_bulk_loads h p =
     map (\<lambda>c. counters h (bulk c)) (filter (\<lambda>c. flags h (alive c)) (carriers p))"

section \<open>Pending carrier tokens\<close>

type_synonym 'tx pending_carriers = "string \<rightharpoonup> 'tx"

definition token_guard_drop :: "string \<Rightarrow> 'tx pending_carriers \<Rightarrow> 'tx pending_carriers" where
  "token_guard_drop token reg = reg(token := None)"

section \<open>Bulk tickets\<close>

definition bulk_classify_bytes :: nat where "bulk_classify_bytes = 512 * 1024"

record bulk_ticket =
  bytes :: nat
  threshold :: nat
  classified :: bool
  carrier_bulk :: "nat option"

definition ticket_with_threshold :: "nat option \<Rightarrow> nat \<Rightarrow> bulk_ticket" where
  "ticket_with_threshold cb th =
     \<lparr>bytes = 0, threshold = th, classified = False, carrier_bulk = cb\<rparr>"

definition ticket_new :: "nat option \<Rightarrow> bulk_ticket" where
  "ticket_new cb = ticket_with_threshold cb bulk_classify_bytes"

definition bump_carrier :: "nat option \<Rightarrow> heap \<Rightarrow> heap" where
  "bump_carrier cb h = (case cb of Some c \<Rightarrow> fetch_add c 1 h | None \<Rightarrow> h)"

definition ticket_record :: "nat \<Rightarrow> bulk_ticket \<Rightarrow> heap \<Rightarrow> bool \<times> bulk_ticket \<times> heap" where
  "ticket_record n t h =
     (if n = 0 \<or> classified t then (False, t, h)
      else let total = wrapping_add_u64 (bytes t) n;
               t1 = t\<lparr>bytes := total\<rparr>
           in if total < threshold t then (False, t1, h)
              else if classified t1 then (False, t1, h)
              else (True, t1\<lparr>classified := True\<rparr>, bump_carrier (carrier_bulk t) h))"

definition ticket_drop :: "bulk_ticket \<Rightarrow> heap \<Rightarrow> heap" where
  "ticket_drop t h =
     (if classified t
      then (case carrier_bulk t of Some c \<Rightarrow> fetch_sub c 1 h | None \<Rightarrow> h) else h)"

text \<open>
  The atomic operations of one call of \<^verbatim>\<open>record\<close>: the load of the flag, the addition, the
  compare-exchange, the addition to the carrier's counter.
\<close>

datatype recorder = AtLoad nat | AtAdd nat | AtCas | AtBump | Returned bool

fun recorder_step :: "recorder \<Rightarrow> bulk_ticket \<Rightarrow> heap \<Rightarrow> (recorder \<times> bulk_ticket \<times> heap) option" where
  "recorder_step (AtLoad n) t h =
     Some (if n = 0 \<or> classified t then Returned False else AtAdd n, t, h)"
| "recorder_step (AtAdd n) t h =
     (let total = wrapping_add_u64 (bytes t) n
      in Some (if total < threshold t then Returned False else AtCas, t\<lparr>bytes := total\<rparr>, h))"
| "recorder_step AtCas t h =
     Some (if classified t then (Returned False, t, h)
           else (AtBump, t\<lparr>classified := True\<rparr>, h))"
| "recorder_step AtBump t h = Some (Returned True, t, bump_carrier (carrier_bulk t) h)"
| "recorder_step (Returned b) t h = None"

type_synonym rec_state = "recorder list \<times> bulk_ticket \<times> heap"

inductive rec_next :: "rec_state \<Rightarrow> rec_state \<Rightarrow> bool" where
  rec_nextI: "i < length rs \<Longrightarrow> recorder_step (rs ! i) t h = Some (r', t', h') \<Longrightarrow>
    rec_next (rs, t, h) (rs[i := r'], t', h')"

definition rec_start :: "nat list \<Rightarrow> bulk_ticket \<Rightarrow> heap \<Rightarrow> rec_state \<Rightarrow> bool" where
  "rec_start ns t h s \<longleftrightarrow> s = (map AtLoad ns, t, h)"

section \<open>Choice of a carrier\<close>

lemma choose_prefix:
  assumes "loads \<noteq> []" "start < length loads" "n < length loads"
    and "foldl (choose_step loads start) (start, loads ! start) [1..<Suc n] = (b, l)"
  shows "l = loads ! b \<and> (\<exists>k\<le>n. b = (start + k) mod length loads \<and>
     (\<forall>j\<le>n. l \<le> loads ! ((start + j) mod length loads)) \<and>
     (\<forall>j<k. l < loads ! ((start + j) mod length loads)))"
  using assms(3,4)
proof (induction n arbitrary: b l)
  case 0
  with assms(2) show ?case by auto
next
  case (Suc n)
  obtain b0 l0 where e: "foldl (choose_step loads start) (start, loads ! start) [1..<Suc n] = (b0, l0)"
    by fastforce
  from Suc.IH [OF Suc_lessD [OF Suc.prems(1)] e]
  obtain k where k: "k \<le> n" "l0 = loads ! b0" "b0 = (start + k) mod length loads"
    "\<And>j. j \<le> n \<Longrightarrow> l0 \<le> loads ! ((start + j) mod length loads)"
    "\<And>j. j < k \<Longrightarrow> l0 < loads ! ((start + j) mod length loads)" by auto
  let ?i = "(start + Suc n) mod length loads"
  have bl: "(b, l) = (if loads ! ?i < l0 then (?i, loads ! ?i) else (b0, l0))"
  proof -
    have "[1..<Suc (Suc n)] = [1..<Suc n] @ [Suc n]" by simp
    then have "(b, l) = choose_step loads start (b0, l0) (Suc n)"
      using Suc.prems(2) e by (simp only: foldl_append foldl.simps)
    then show ?thesis by (simp only: choose_step_def Let_def prod.case)
  qed
  show ?case
  proof (cases "loads ! ?i < l0")
    case True
    then have "\<forall>j\<le>n. loads ! ?i < loads ! ((start + j) mod length loads)"
      using k(4) by (meson le_less_trans not_le)
    with True bl show ?thesis
      by (intro conjI exI [of _ "Suc n"]) (auto simp: le_Suc_eq less_Suc_eq_le)
  next
    case False
    with bl k show ?thesis
      by (intro conjI exI [of _ k]) (auto simp: le_Suc_eq)
  qed
qed

lemma cyclic_cover:
  assumes "j < n" "start < n" shows "\<exists>m<n. j = (start + m) mod (n :: nat)"
proof (cases "start \<le> j")
  case True
  with assms show ?thesis by (intro exI [of _ "j - start"]) auto
next
  case False
  with assms show ?thesis
    by (intro exI [of _ "n + j - start"]) auto
qed

lemma choose_carrier_spec:
  assumes "start < length loads"
  shows "\<exists>k<length loads. choose_carrier loads start = (start + k) mod length loads \<and>
    (\<forall>l\<in>set loads. loads ! choose_carrier loads start \<le> l) \<and>
    (\<forall>j<k. loads ! choose_carrier loads start < loads ! ((start + j) mod length loads))"
proof -
  have ne: "loads \<noteq> []" using assms by auto
  obtain b l where e: "foldl (choose_step loads start) (start, loads ! start)
      [1..<Suc (length loads - 1)] = (b, l)" by fastforce
  have lt: "length loads - 1 < length loads" using ne by simp
  from choose_prefix [OF ne assms lt e] obtain k where k: "l = loads ! b" "k < length loads"
    "b = (start + k) mod length loads"
    "\<And>j. j < length loads \<Longrightarrow> l \<le> loads ! ((start + j) mod length loads)"
    "\<And>j. j < k \<Longrightarrow> l < loads ! ((start + j) mod length loads)"
    using ne by (metis One_nat_def Suc_pred length_greater_0_conv less_Suc_eq_le)
  have "choose_carrier loads start = b" using e ne by (simp add: choose_carrier_def)
  moreover have "\<forall>x\<in>set loads. l \<le> x"
    using k(4) cyclic_cover [OF _ assms] by (metis in_set_conv_nth)
  ultimately show ?thesis using k by blast
qed

text \<open>
  C21. The scheduler picks a least loaded live carrier, the first such one from the cursor
  on. So with equal loads it is exactly the round robin of \<^verbatim>\<open>pick\<close>, the cursor included, and
  it reports a positive load exactly when every live carrier holds a bulk connection, which
  is the trigger for growing the pool. It fails only when no carrier is alive.
\<close>

theorem pick_avoiding_bulk_least_loaded:
  fixes p :: "'o carrier_pool" and h
  defines "live \<equiv> filter (\<lambda>c. flags h (alive c)) (carriers p)"
  shows "(fst (pool_pick_avoiding_bulk h p) = None \<longleftrightarrow> live = []) \<and>
    (\<forall>r. fst (pool_pick_avoiding_bulk h p) = Some r \<longrightarrow>
      (\<exists>k<length live. let i = (cursor p + k) mod length live in
         pick_opener r = opener (live ! i) \<and> pick_bulk r = bulk (live ! i) \<and>
         bulk_load r = counters h (bulk (live ! i)) \<and>
         (\<forall>c\<in>set live. bulk_load r \<le> counters h (bulk c)) \<and>
         (\<forall>j<k. bulk_load r < counters h (bulk (live ! ((cursor p + j) mod length live))))) \<and>
      (0 < bulk_load r \<longleftrightarrow> (\<forall>c\<in>set live. 0 < counters h (bulk c))) \<and>
      ((\<forall>c\<in>set live. counters h (bulk c) = bulk_load r) \<longrightarrow>
         fst (pool_pick h p) = Some (pick_opener r))) \<and>
    snd (pool_pick_avoiding_bulk h p) = snd (pool_pick h p)"
proof (cases "live = []")
  case True
  then show ?thesis
    by (simp add: pool_pick_avoiding_bulk_def pool_pick_def retain_alive_def live_def Let_def)
next
  case False
  let ?n = "length live" and ?s = "cursor p mod length live"
  let ?loads = "map (\<lambda>c. counters h (bulk c)) live"
  let ?b = "choose_carrier ?loads ?s"
  let ?r = "\<lparr>pick_opener = opener (live ! ?b), pick_bulk = bulk (live ! ?b),
     bulk_load = ?loads ! ?b, pick_pool_len = ?n\<rparr>"
  have pk: "pool_pick_avoiding_bulk h p = (Some ?r, advance (retain_alive h p))"
    "pool_pick h p = (Some (opener (live ! ?s)), advance (retain_alive h p))"
    using False
    by (simp_all add: pool_pick_avoiding_bulk_def pool_pick_def retain_alive_def live_def Let_def)
  obtain k where "k < ?n" "?b = (?s + k) mod ?n" "\<forall>l\<in>set ?loads. ?loads ! ?b \<le> l"
    "\<forall>j<k. ?loads ! ?b < ?loads ! ((?s + j) mod ?n)"
    using choose_carrier_spec [of ?s ?loads] False by auto
  then obtain i where i: "?b = i" "i = (cursor p + k) mod ?n" "k < ?n" "i < ?n"
    and least: "\<And>c. c \<in> set live \<Longrightarrow> counters h (bulk (live ! i)) \<le> counters h (bulk c)"
    and later: "\<And>j. j < k \<Longrightarrow>
      counters h (bulk (live ! i)) < counters h (bulk (live ! ((cursor p + j) mod ?n)))"
    using False by (simp add: mod_add_left_eq)
  let ?l = "counters h (bulk (live ! i))"
  obtain r where pkr: "fst (pool_pick_avoiding_bulk h p) = Some r"
    and r: "pick_opener r = opener (live ! i)" "pick_bulk r = bulk (live ! i)" "bulk_load r = ?l"
    using pk(1) i by simp
  have "live ! ?s \<in> set live" using False by simp
  then have "?s = i" if "\<forall>c\<in>set live. counters h (bulk c) = ?l"
  proof -
    have "counters h (bulk (live ! ?s)) = ?l"
      by (rule bspec [OF that]) fact
    then have "\<not> 0 < k" using later [of 0] by (metis add_0_right less_irrefl)
    with i(2) show ?thesis by simp
  qed
  then have round_robin: "(\<forall>c\<in>set live. counters h (bulk c) = bulk_load r) \<longrightarrow>
      fst (pool_pick h p) = Some (pick_opener r)"
    unfolding r using pk(2) by (metis fst_conv)
  have busy: "0 < bulk_load r \<longleftrightarrow> (\<forall>c\<in>set live. 0 < counters h (bulk c))"
    unfolding r using least nth_mem [OF i(4)] by fastforce
  have first: "\<exists>k'<?n. let i = (cursor p + k') mod ?n in
      pick_opener r = opener (live ! i) \<and> pick_bulk r = bulk (live ! i) \<and>
      bulk_load r = counters h (bulk (live ! i)) \<and>
      (\<forall>c\<in>set live. bulk_load r \<le> counters h (bulk c)) \<and>
      (\<forall>j<k'. bulk_load r < counters h (bulk (live ! ((cursor p + j) mod ?n))))"
    unfolding r Let_def
    by (rule exI [of _ k]) (unfold i(2) [symmetric], intro conjI ballI allI impI refl least later i(3))
  show ?thesis
    unfolding pkr option.inject using False pk first busy round_robin
    by (intro conjI allI impI) simp_all
qed

theorem pick_avoiding_bulk_least_loaded_witness:
  "\<exists>r. fst (pool_pick_avoiding_bulk
       \<lparr>flags = \<lambda>_. True, counters = (\<lambda>_. 0)(0 := 2), fresh = 2\<rparr>
       \<lparr>carriers = [\<lparr>opener = ''a'', alive = 0, bulk = 0\<rparr>, \<lparr>opener = ''b'', alive = 1, bulk = 1\<rparr>],
        cursor = 4\<rparr>) = Some r \<and> bulk_load r = 0"
proof -
  let ?h = "\<lparr>flags = \<lambda>_ :: nat. True, counters = (\<lambda>_. 0)(0 := 2), fresh = 2\<rparr> :: heap"
  let ?p = "\<lparr>carriers = [\<lparr>opener = ''a'', alive = 0, bulk = 0\<rparr>, \<lparr>opener = ''b'', alive = 1, bulk = 1\<rparr>],
        cursor = 4\<rparr> :: string carrier_pool"
  note least = pick_avoiding_bulk_least_loaded [of ?h ?p]
  have "fst (pool_pick_avoiding_bulk ?h ?p) \<noteq> None"
    using least [THEN conjunct1] by simp
  then obtain r where r: "fst (pool_pick_avoiding_bulk ?h ?p) = Some r" by blast
  have "0 < bulk_load r \<longleftrightarrow> (\<forall>c\<in>set (filter (\<lambda>c. flags ?h (alive c)) (carriers ?p)).
      0 < counters ?h (bulk c))"
    using least [THEN conjunct2, THEN conjunct1, THEN spec, of r] r by blast
  then have "bulk_load r = 0" by simp
  with r show ?thesis by blast
qed

section \<open>Round robin\<close>

fun picks :: "heap \<Rightarrow> nat \<Rightarrow> 'o carrier_pool \<Rightarrow> 'o option list" where
  "picks h 0 p = []"
| "picks h (Suc n) p = (case pool_pick h p of (o', p') \<Rightarrow> o' # picks h n p')"

lemma retain_alive_all:
  "\<forall>c\<in>set (carriers p). flags h (alive c) \<Longrightarrow> retain_alive h p = p"
  by (simp add: retain_alive_def)

lemma picks_all_alive:
  assumes "carriers p \<noteq> []" "\<forall>c\<in>set (carriers p). flags h (alive c)" "cursor p + n \<le> u64_max"
  shows "picks h n p = map (\<lambda>j. Some (opener (carriers p ! ((cursor p + j) mod length (carriers p))))) [0..<n]"
  using assms
proof (induction n arbitrary: p)
  case 0
  then show ?case by simp
next
  case (Suc n)
  have p: "pool_pick h p = (Some (opener (carriers p ! (cursor p mod length (carriers p)))), advance p)"
    using Suc.prems retain_alive_all [of p h] by (simp add: pool_pick_def Let_def)
  have a: "carriers (advance p) = carriers p" "cursor (advance p) = Suc (cursor p)"
    using Suc.prems(3) by (simp_all add: advance_def wrapping_add_u64_exact)
  have "[0..<Suc n] = 0 # map Suc [0..<n]" by (simp add: upt_conv_Cons map_Suc_upt)
  with p a Suc.IH [of "advance p"] Suc.prems show ?case by simp
qed

text \<open>
  Round robin is fair: as long as the carriers stay alive (and the cursor does not
  wrap), any run of picks as long as the pool hands out every carrier exactly once.
\<close>

theorem pick_fair:
  assumes "carriers p \<noteq> []" "\<forall>c\<in>set (carriers p). flags h (alive c)"
    and "cursor p + length (carriers p) \<le> u64_max"
  shows "picks h (length (carriers p)) p =
    map Some (rotate (cursor p) (map opener (carriers p)))"
proof (rule nth_equalityI)
  show "length (picks h (length (carriers p)) p) =
      length (map Some (rotate (cursor p) (map opener (carriers p))))"
    by (simp add: picks_all_alive [OF assms])
next
  fix i assume "i < length (picks h (length (carriers p)) p)"
  then have i: "i < length (carriers p)" by (simp add: picks_all_alive [OF assms])
  then show "picks h (length (carriers p)) p ! i =
      map Some (rotate (cursor p) (map opener (carriers p))) ! i"
    using assms(1) by (simp add: picks_all_alive [OF assms] nth_rotate)
qed

theorem pick_fair_witness:
  "picks \<lparr>flags = \<lambda>_. True, counters = \<lambda>_. 0, fresh = 9\<rparr> 3
     \<lparr>carriers = map (\<lambda>i. \<lparr>opener = i, alive = i, bulk = i\<rparr>) [0, 1, 2], cursor = 4\<rparr>
   = [Some 1, Some 2, Some 0]"
proof -
  let ?p = "\<lparr>carriers = map (\<lambda>i. \<lparr>opener = i, alive = i, bulk = i\<rparr>) [0, 1, 2], cursor = 4\<rparr>"
  have "picks \<lparr>flags = \<lambda>_. True, counters = \<lambda>_. 0, fresh = 9\<rparr> (length (carriers ?p)) ?p =
      map Some (rotate (cursor ?p) (map opener (carriers ?p)))"
    by (rule pick_fair) (simp_all add: u64_max_def)
  moreover have "length (carriers ?p) = 3" by simp
  ultimately show ?thesis by (simp only:) (simp add: rotate_drop_take)
qed

section \<open>Concurrent classification\<close>

interpretation recorders: transition_system "rec_start ns t h" rec_next for ns t h .

fun pending_bytes :: "recorder \<Rightarrow> nat" where
  "pending_bytes (AtLoad n) = n"
| "pending_bytes (AtAdd n) = n"
| "pending_bytes _ = 0"

abbreviation count_of :: "recorder \<Rightarrow> recorder list \<Rightarrow> nat" where
  "count_of r rs \<equiv> sum_list (map (\<lambda>x. if x = r then 1 else 0) rs)"

abbreviation pending :: "recorder list \<Rightarrow> nat" where
  "pending rs \<equiv> sum_list (map pending_bytes rs)"

text \<open>
  What holds between any two atomic operations of concurrent calls that move \<open>n\<close> bytes in
  all, over the flag, the byte count and the counter of the carrier, and the numbers of calls
  about to bump, returned true and about to compare-exchange and of bytes not yet added.
\<close>

definition rec_nums ::
  "nat \<Rightarrow> nat \<Rightarrow> nat \<Rightarrow> bool \<Rightarrow> nat \<Rightarrow> nat \<Rightarrow> nat \<Rightarrow> nat \<Rightarrow> nat \<Rightarrow> nat \<Rightarrow> bool" where
  "rec_nums th b0 n cl by cnt bumps trues cass pend \<longleftrightarrow>
     bumps + trues = (if cl then 1 else 0) \<and> cnt = b0 + trues \<and>
     by + pend \<le> n \<and> (\<not> cl \<longrightarrow> by + pend = n) \<and>
     (cl \<or> 0 < cass \<longrightarrow> th \<le> n) \<and> (\<not> cl \<and> th \<le> by \<longrightarrow> 0 < cass)"

definition rec_inv :: "nat \<Rightarrow> nat \<Rightarrow> nat \<Rightarrow> nat \<Rightarrow> rec_state \<Rightarrow> bool" where
  "rec_inv th c b0 n s \<longleftrightarrow> (case s of (rs, t, h) \<Rightarrow>
     threshold t = th \<and> carrier_bulk t = Some c \<and>
     rec_nums th b0 n (classified t) (bytes t) (counters h c) (count_of AtBump rs)
       (count_of (Returned True) rs) (count_of AtCas rs) (pending rs))"

lemma rec_inv_start:
  "0 < th \<Longrightarrow> rec_start ns (ticket_with_threshold (Some c) th) h s \<Longrightarrow>
     rec_inv th c (counters h c) (sum_list ns) s"
  by (auto simp: rec_start_def rec_inv_def rec_nums_def ticket_with_threshold_def comp_def
      sum_map_eq_0)

lemma rec_nums_step:
  assumes "rec_nums th b0 n (classified t) (bytes t) (counters h c) bu tr ca pe"
    and "recorder_step r t h = Some (r', t', h')" "carrier_bulk t = Some c" "threshold t = th"
    and "n \<le> u64_max" "b0 < u64_max"
    and "bu' + (if r = AtBump then 1 else 0) = bu + (if r' = AtBump then 1 else 0)"
    and "tr' + (if r = Returned True then 1 else 0) = tr + (if r' = Returned True then 1 else 0)"
    and "ca' + (if r = AtCas then 1 else 0) = ca + (if r' = AtCas then 1 else 0)"
    and "pe' + pending_bytes r = pe + pending_bytes r'"
  shows "rec_nums th b0 n (classified t') (bytes t') (counters h' c) bu' tr' ca' pe' \<and>
    carrier_bulk t' = Some c \<and> threshold t' = th"
proof -
  note eqs = assms(7-10) and nums = assms(1) [unfolded rec_nums_def]
  show ?thesis
  proof (cases r)
    case (AtLoad m)
    have e: "t' = t" "h' = h" "r' = (if m = 0 \<or> classified t then Returned False else AtAdd m)"
      using assms(2) AtLoad by auto
    show ?thesis
    proof (cases "m = 0 \<or> classified t")
      case True
      with eqs AtLoad e have "bu' = bu" "tr' = tr" "ca' = ca" "pe' \<le> pe" "m = 0 \<Longrightarrow> pe' = pe"
        by simp_all
      with nums True show ?thesis using assms(3,4) unfolding e rec_nums_def by (simp, linarith)
    next
      case False
      with eqs AtLoad e have "bu' = bu" "tr' = tr" "ca' = ca" "pe' = pe"
        by simp_all
      with nums False show ?thesis using assms(3,4) unfolding e rec_nums_def by simp
    qed
  next
    case (AtAdd m)
    have "m \<le> pe" using eqs(4) AtAdd assms(2) by (cases r') (auto simp: Let_def split: if_splits)
    then have w: "wrapping_add_u64 (bytes t) m = bytes t + m"
      using nums assms(5) by (intro wrapping_add_u64_exact) linarith
    have e: "t' = t\<lparr>bytes := bytes t + m\<rparr>" "h' = h"
      "r' = (if bytes t + m < th then Returned False else AtCas)"
      using assms(2,4) AtAdd w by (simp_all add: Let_def)
    have "bu' = bu" "tr' = tr" "pe' + m = pe" "ca' = ca + (if bytes t + m < th then 0 else 1)"
      using eqs AtAdd e by (simp_all split: if_splits)
    with nums show ?thesis using assms(3,4) unfolding e rec_nums_def by (simp, linarith)
  next
    case AtCas
    have e: "t' = (if classified t then t else t\<lparr>classified := True\<rparr>)" "h' = h"
      "r' = (if classified t then Returned False else AtBump)"
      using assms(2) AtCas by (auto split: if_splits)
    have "bu' = bu + (if classified t then 0 else 1)" "tr' = tr" "pe' = pe" "ca = Suc ca'"
      using eqs AtCas e by (simp_all split: if_splits)
    with nums show ?thesis using assms(3,4) unfolding e rec_nums_def
      by (cases "classified t") (simp, linarith?)+
  next
    case AtBump
    have n: "Suc bu' = bu" "tr' = Suc tr" "pe' = pe" "ca' = ca"
      using eqs assms(2) AtBump by auto
    then have "classified t" "tr = 0" "bu' = 0" using nums by (auto split: if_splits)
    moreover have "wrapping_add_u64 (counters h c) 1 = counters h c + 1"
      using nums assms(6) \<open>tr = 0\<close> by (intro wrapping_add_u64_exact) simp
    moreover have "t' = t" "h' = fetch_add c 1 h"
      using assms(2,3) AtBump by (simp_all add: bump_carrier_def)
    ultimately show ?thesis using nums n assms(3,4) unfolding rec_nums_def
      by (simp add: fetch_add_def)
  next
    case (Returned b)
    then show ?thesis using assms(2) by simp
  qed
qed

lemma rec_inv_next:
  assumes "rec_inv th c b0 n s" "rec_next s s'" "n \<le> u64_max" "b0 < u64_max"
  shows "rec_inv th c b0 n s'"
  using assms(2)
proof (cases rule: rec_next.cases)
  case (rec_nextI i rs t h r' t' h')
  note upd = sum_map_update [OF \<open>i < length rs\<close>, of _ r']
  have inv: "rec_nums th b0 n (classified t) (bytes t) (counters h c) (count_of AtBump rs)
       (count_of (Returned True) rs) (count_of AtCas rs) (pending rs)"
    "carrier_bulk t = Some c" "threshold t = th"
    using assms(1) rec_nextI(1) by (simp_all add: rec_inv_def)
  show ?thesis
    unfolding rec_inv_def rec_nextI(2) prod.case
    using rec_nums_step [OF inv(1) rec_nextI(4) inv(2,3) assms(3,4) upd upd upd upd] by blast
qed

text \<open>
  C4. Concurrent calls of \<^verbatim>\<open>record\<close> on one ticket, interleaved in any way at their atomic
  operations: when all have returned, the connection is classified exactly when the calls
  moved the threshold together, and in that case exactly one call reported the transition
  and the carrier was charged exactly once.
\<close>

theorem concurrent_record_counts_once:
  assumes "recorders.reach ns (ticket_with_threshold (Some c) th) h (rs, t', h')"
    and "\<forall>r\<in>set rs. \<exists>b. r = Returned b"
    and "0 < th" "sum_list ns \<le> u64_max" "counters h c < u64_max"
  shows "(classified t' \<longleftrightarrow> th \<le> sum_list ns) \<and>
    count_list rs (Returned True) = (if th \<le> sum_list ns then 1 else 0) \<and>
    counters h' c = counters h c + (if th \<le> sum_list ns then 1 else 0)"
proof -
  have inv: "rec_inv th c (counters h c) (sum_list ns) (rs, t', h')"
    using assms(1)
  proof (rule recorders.invariant_rule)
    show "rec_inv th c (counters h c) (sum_list ns) s"
      if "rec_start ns (ticket_with_threshold (Some c) th) h s" for s
      by (rule rec_inv_start [OF assms(3) that])
  qed (rule rec_inv_next [OF _ _ assms(4,5)])
  have none: "pending rs = 0" "count_of AtBump rs = 0" "count_of AtCas rs = 0"
    by (rule sum_map_eq_0; use assms(2) in fastforce)+
  have one: "count_of (Returned True) rs = count_list rs (Returned True)"
    by (induction rs) simp_all
  from inv have "rec_nums th (counters h c) (sum_list ns) (classified t') (bytes t') (counters h' c)
      0 (count_list rs (Returned True)) 0 0"
    unfolding rec_inv_def prod.case none one by blast
  then show ?thesis
    unfolding rec_nums_def by (cases "classified t'") simp_all
qed

fun run_schedule :: "nat list \<Rightarrow> rec_state \<Rightarrow> rec_state" where
  "run_schedule [] s = s"
| "run_schedule (i # is) (rs, t, h) =
     (case (if i < length rs then recorder_step (rs ! i) t h else None) of
        None \<Rightarrow> run_schedule is (rs, t, h)
      | Some (r', t', h') \<Rightarrow> run_schedule is (rs[i := r'], t', h'))"

lemma run_schedule_next: "rec_next\<^sup>*\<^sup>* s (run_schedule is s)"
proof (induction "is" s rule: run_schedule.induct)
  case (2 i "is" rs t h)
  show ?case
  proof (cases "if i < length rs then recorder_step (rs ! i) t h else None")
    case None
    then show ?thesis using 2(1) by simp
  next
    case (Some x)
    then obtain r' t' h' where x: "x = (r', t', h')" by (cases x)
    with Some have "rec_next (rs, t, h) (rs[i := r'], t', h')"
      by (auto intro: rec_nextI split: if_splits)
    with 2(2) [OF Some] x Some show ?thesis by (auto intro: converse_rtranclp_into_rtranclp)
  qed
qed simp

theorem concurrent_record_counts_once_witness:
  "\<exists>t' h'. recorders.reach [3, 4] (ticket_with_threshold (Some 0) 5) \<lparr>flags = \<lambda>_. True, counters = \<lambda>_. 0, fresh = 1\<rparr>
       ([Returned False, Returned True], t', h') \<and> classified t' \<and> counters h' 0 = 1"
proof -
  let ?h = "\<lparr>flags = \<lambda>_ :: nat. True, counters = \<lambda>_ :: nat. 0 :: nat, fresh = 1 :: nat\<rparr>"
  let ?t = "ticket_with_threshold (Some 0) 5"
  let ?s = "(map AtLoad [3, 4], ?t, ?h)"
  have "recorders.reach [3, 4] ?t ?h (run_schedule [0, 1, 0, 1, 1, 1] ?s)"
    by (rule recorders.reach_rtranclp [OF _ run_schedule_next]) (simp add: rec_start_def)
  moreover have "\<exists>t' h'. run_schedule [0, 1, 0, 1, 1, 1] ?s = ([Returned False, Returned True], t', h')"
    by (simp add: ticket_with_threshold_def wrapping_add_u64_def u64_max_def bump_carrier_def)
  ultimately obtain t' h' where r: "recorders.reach [3, 4] ?t ?h ([Returned False, Returned True], t', h')"
    by auto
  have "\<forall>r\<in>set [Returned False, Returned True]. \<exists>b. r = Returned b" by simp blast
  from concurrent_record_counts_once [OF r this] have "classified t' \<and> counters h' 0 = 1"
    by (simp add: u64_max_def)
  with r show ?thesis by blast
qed


section \<open>Accounting over the life of tickets\<close>

type_synonym ticket_state = "bulk_ticket list \<times> heap"

inductive ticket_next :: "ticket_state \<Rightarrow> ticket_state \<Rightarrow> bool" where
  ticket_open: "length ts < u64_max \<Longrightarrow>
    ticket_next (ts, h) (ts @ [ticket_with_threshold cb th], h)"
| ticket_move: "i < length ts \<Longrightarrow> ticket_record n (ts ! i) h = (b, t', h') \<Longrightarrow>
    ticket_next (ts, h) (ts[i := t'], h')"
| ticket_close: "i < length ts \<Longrightarrow>
    ticket_next (ts, h) (take i ts @ drop (Suc i) ts, ticket_drop (ts ! i) h)"

definition ticket_start :: "ticket_state \<Rightarrow> bool" where
  "ticket_start s \<longleftrightarrow> fst s = [] \<and> counters (snd s) = (\<lambda>_. 0)"

interpretation tickets: transition_system ticket_start ticket_next .

definition charges :: "nat \<Rightarrow> bulk_ticket \<Rightarrow> bool" where
  "charges c t \<longleftrightarrow> classified t \<and> carrier_bulk t = Some c"

abbreviation charge :: "nat \<Rightarrow> bulk_ticket \<Rightarrow> nat" where
  "charge c t \<equiv> (if charges c t then 1 else 0)"

definition ticket_inv :: "ticket_state \<Rightarrow> bool" where
  "ticket_inv s \<longleftrightarrow> length (fst s) \<le> u64_max \<and>
     (\<forall>c. counters (snd s) c = sum_list (map (charge c) (fst s)))"

lemma ticket_record_charge:
  assumes "ticket_record n t h = (b, t', h')" "\<not> charges c t \<Longrightarrow> counters h c < u64_max"
  shows "counters h' c + charge c t = counters h c + charge c t'"
proof (cases "classified t")
  case True
  with assms show ?thesis by (simp add: ticket_record_def)
next
  case False
  then have "counters h c < u64_max" using assms(2) by (simp add: charges_def)
  with False assms(1) show ?thesis
    by (auto simp: ticket_record_def charges_def bump_carrier_def fetch_add_def Let_def
        wrapping_add_u64_exact split: if_splits option.splits)
qed

lemma ticket_drop_charge:
  assumes "charge c t \<le> counters h c" "counters h c \<le> u64_max"
  shows "counters (ticket_drop t h) c + charge c t = counters h c"
  using assms
  by (auto simp: ticket_drop_def charges_def fetch_sub_def wrapping_sub_u64_exact split: option.splits)

lemma charge_sum_le: "sum_list (map (charge c) ts) \<le> length ts"
  by (induction ts) auto

lemma charge_sum_less:
  assumes "i < length ts" "\<not> charges c (ts ! i)"
  shows "sum_list (map (charge c) ts) < length ts"
  using sum_map_drop_nth [OF assms(1), of "charge c"] charge_sum_le [of c "take i ts @ drop (Suc i) ts"]
    assms by simp

lemma ticket_inv_next:
  assumes "ticket_inv s" "ticket_next s s'"
  shows "ticket_inv s'"
  using assms(2,1)
proof cases
  case (ticket_open ts h cb th)
  with assms(1) show ?thesis
    by (simp add: ticket_inv_def charges_def ticket_with_threshold_def)
next
  case (ticket_move i ts n h b t' h')
  have "counters h' c = sum_list (map (charge c) (ts[i := t']))" for c
  proof -
    have e: "counters h c = sum_list (map (charge c) ts)" "length ts \<le> u64_max"
      using assms(1) ticket_move(1) by (simp_all add: ticket_inv_def)
    have "counters h c < u64_max" if "\<not> charges c (ts ! i)"
      using charge_sum_less [OF ticket_move(3) that] e by linarith
    then have "counters h' c + charge c (ts ! i) = counters h c + charge c t'"
      by (rule ticket_record_charge [OF ticket_move(4)])
    then show ?thesis
      using sum_map_update [OF ticket_move(3), of "charge c" t'] e(1) by linarith
  qed
  with assms(1) ticket_move show ?thesis by (simp add: ticket_inv_def)
next
  case (ticket_close i ts h)
  have "counters (ticket_drop (ts ! i) h) c = sum_list (map (charge c) (take i ts @ drop (Suc i) ts))" for c
  proof -
    have e: "counters h c = sum_list (map (charge c) ts)" "length ts \<le> u64_max"
      using assms(1) ticket_close(1) by (simp_all add: ticket_inv_def)
    then have "counters (ticket_drop (ts ! i) h) c + charge c (ts ! i) = counters h c"
      using sum_map_nth_le [OF ticket_close(3), of "charge c"] charge_sum_le [of c ts]
      by (intro ticket_drop_charge) linarith+
    with e show ?thesis using sum_map_drop_nth [OF ticket_close(3), of "charge c"] by linarith
  qed
  moreover have "length ts - 1 \<le> u64_max"
    using assms(1) ticket_close(1) by (auto simp: ticket_inv_def intro: le_trans [OF diff_le_self])
  ultimately show ?thesis using ticket_close by (simp add: ticket_inv_def)
qed

text \<open>
  C10. Over any history of connections opening, moving bytes and ending, the bulk counter of
  every carrier is exactly the number of live connections on it that are classified as bulk;
  in particular it never wraps below zero and is zero again when they all have ended.
\<close>

theorem bulk_counter_exact:
  assumes "tickets.reach (ts, h)"
  shows "counters h c = length (filter (\<lambda>t. classified t \<and> carrier_bulk t = Some c) ts)"
proof -
  have "ticket_inv (ts, h)"
    using assms
  proof (rule tickets.invariant_rule)
    show "ticket_inv s" if "ticket_start s" for s
      using that by (simp add: ticket_inv_def ticket_start_def)
  qed (rule ticket_inv_next)
  moreover have "sum_list (map (charge c) ts) = length (filter (charges c) ts)"
    by (induction ts) auto
  ultimately show ?thesis by (simp add: ticket_inv_def charges_def [abs_def])
qed

theorem bulk_counter_exact_witness:
  "\<exists>ts h. tickets.reach (ts, h) \<and> ts \<noteq> [] \<and> counters h 3 = 1"
proof -
  let ?h = "\<lparr>flags = \<lambda>_ :: nat. True, counters = \<lambda>_ :: nat. 0 :: nat, fresh = 1 :: nat\<rparr>"
  let ?t = "ticket_with_threshold (Some 3) 10"
  obtain b t' h' where r: "ticket_record 12 ?t ?h = (b, t', h')" using prod_cases3 by blast
  have "tickets.reach ([], ?h)" by (rule tickets.reach_start) (simp add: ticket_start_def)
  then have "tickets.reach ([?t], ?h)"
    by (rule tickets.reach_next) (use ticket_open [of "[]" ?h "Some 3" 10] in \<open>simp add: u64_max_def\<close>)
  then have t: "tickets.reach ([t'], h')"
    by (rule tickets.reach_next) (use ticket_move [of 0 "[?t]" 12 ?h b t' h'] r in simp)
  moreover have "classified t' \<and> carrier_bulk t' = Some 3"
    using r by (auto simp: ticket_record_def ticket_with_threshold_def wrapping_add_u64_def u64_max_def)
  ultimately have "counters h' 3 = 1" using bulk_counter_exact [OF t, of 3] by simp
  with t show ?thesis by blast
qed

section \<open>Capacity\<close>

lemma pool_push_len:
  "pool_push c mx p = (b, p') \<Longrightarrow> pool_len p \<le> max mx k \<Longrightarrow>
     pool_len p' \<le> max mx k \<and> (b \<longleftrightarrow> pool_len p < mx)"
  by (auto simp: pool_push_def pool_len_def split: if_splits)

end
