(* ===== verification/Fast_Link_Framing.thy ===== *)
theory Fast_Link_Framing
  imports Bore_Prelude
begin

text \<open>
  \<^verbatim>\<open>src/src/fast_link/framing.rs\<close>: the incremental parser that decides which prefix of each
  read belongs to an upload body. A byte is a \<^typ>\<open>char\<close>. The loop of \<^verbatim>\<open>feed_chunked\<close> is
  \<open>feed_loop\<close>, over the part of the input not yet inspected; the state it leaves behind is
  part of its result, on errors too. The reference is \<open>run_bytes\<close>, one byte at a time, and
  the grammar \<open>chunked_body\<close>.
\<close>

section \<open>Framer\<close>

datatype framing = ContentLength nat | Chunked

datatype framing_error = ChunkSize | ChunkLineTooLong | MissingCrlf | TrailersNotSupported

record progress =
  forward :: nat
  finished :: bool

definition max_chunk_line :: nat where "max_chunk_line = 4096"

datatype chunk_state =
    SizeDigits (value_of: nat) nat nat
  | Ext nat nat
  | SizeLf nat
  | Data nat
  | DataCr
  | DataLf
  | TrailerStart
  | TrailerLf
  | Done

datatype inner = ILength nat nat | IChunked chunk_state

record body_framer =
  inner :: inner
  error :: "framing_error option"

definition framer_new :: "framing \<Rightarrow> body_framer" where
  "framer_new f =
     (case f of
        ContentLength n \<Rightarrow> \<lparr>inner = ILength n n, error = None\<rparr>
      | Chunked \<Rightarrow> \<lparr>inner = IChunked (SizeDigits 0 0 0), error = None\<rparr>)"

definition hex_digit :: "char \<Rightarrow> nat option" where
  "hex_digit c =
     (let b = byte_of c
      in if 48 \<le> b \<and> b \<le> 57 then Some (b - 48)
         else if 97 \<le> b \<and> b \<le> 102 then Some (b - 97 + 10)
         else if 65 \<le> b \<and> b \<le> 70 then Some (b - 65 + 10)
         else None)"

abbreviation cr :: char where "cr \<equiv> CHR 0x0D"
abbreviation lf :: char where "lf \<equiv> CHR 0x0A"
abbreviation tab :: char where "tab \<equiv> CHR 0x09"

text \<open>
  One pass of the loop over the remaining input \<open>b # bs\<close>: the new state, and either an
  error or the number of bytes consumed.
\<close>

fun chunk_pass :: "chunk_state \<Rightarrow> char \<Rightarrow> string \<Rightarrow> chunk_state \<times> (framing_error + nat)" where
  "chunk_pass Done b bs = (Done, Inr 0)"
| "chunk_pass (Data remaining) b bs =
     (let take' = min remaining (length (b # bs))
      in (if remaining - take' = 0 then DataCr else Data (remaining - take'), Inr take'))"
| "chunk_pass (SizeDigits value digits line_len) b bs =
     (let line_len = line_len + 1; here = SizeDigits value digits line_len
      in if max_chunk_line < line_len then (here, Inl ChunkLineTooLong)
         else case hex_digit b of
           Some d \<Rightarrow>
             if 16 \<le> digits then (here, Inl ChunkSize)
             else (case Option.bind (checked_mul_u64 value 16) (\<lambda>v. checked_add_u64 v d) of
                     None \<Rightarrow> (here, Inl ChunkSize)
                   | Some updated \<Rightarrow> (SizeDigits updated (digits + 1) line_len, Inr 1))
         | None \<Rightarrow>
             if digits = 0 then (here, Inl ChunkSize)
             else if b = CHR '';'' \<or> b = CHR '' '' \<or> b = tab then (Ext value line_len, Inr 1)
             else if b = cr then (SizeLf value, Inr 1)
             else (here, Inl ChunkSize))"
| "chunk_pass (Ext value line_len) b bs =
     (let line_len = line_len + 1; here = Ext value line_len
      in if max_chunk_line < line_len then (here, Inl ChunkLineTooLong)
         else if b = cr then (SizeLf value, Inr 1)
         else if b = lf then (here, Inl MissingCrlf)
         else if byte_of b < 32 \<and> b \<noteq> tab then (here, Inl ChunkSize)
         else (here, Inr 1))"
| "chunk_pass (SizeLf value) b bs =
     (if b = lf then (if value = 0 then TrailerStart else Data value, Inr 1)
      else (SizeLf value, Inl MissingCrlf))"
| "chunk_pass DataCr b bs =
     (if b = cr then (DataLf, Inr 1) else (DataCr, Inl MissingCrlf))"
| "chunk_pass DataLf b bs =
     (if b = lf then (SizeDigits 0 0 0, Inr 1) else (DataLf, Inl MissingCrlf))"
| "chunk_pass TrailerStart b bs =
     (if b = cr then (TrailerLf, Inr 1) else (TrailerStart, Inl TrailersNotSupported))"
| "chunk_pass TrailerLf b bs =
     (if b = lf then (Done, Inr 1) else (TrailerLf, Inl MissingCrlf))"

definition is_data :: "chunk_state \<Rightarrow> bool" where
  "is_data st = (case st of Data _ \<Rightarrow> True | _ \<Rightarrow> False)"

lemma chunk_pass_progress:
  assumes "chunk_pass st b bs = (st', Inr n)" "st \<noteq> Done"
  shows "0 < n \<or> (is_data st \<and> \<not> is_data st')" "n \<le> length (b # bs)"
  using assms
  by (cases st; auto simp: Let_def is_data_def min_def split: if_splits option.splits)+

text \<open>
  The loop: the bytes consumed so far are counted in \<open>i\<close>. A pass with chunk data may consume
  nothing, but then leaves the data state.
\<close>

function feed_loop ::
  "chunk_state \<Rightarrow> nat \<Rightarrow> string \<Rightarrow> chunk_state \<times> (framing_error + progress)" where
  "feed_loop st i rest =
     (case rest of
        [] \<Rightarrow> (st, Inr \<lparr>forward = i, finished = (st = Done)\<rparr>)
      | b # bs \<Rightarrow>
          if st = Done then (st, Inr \<lparr>forward = i, finished = True\<rparr>)
          else case chunk_pass st b bs of
            (st', Inl e) \<Rightarrow> (st', Inl e)
          | (st', Inr n) \<Rightarrow> feed_loop st' (i + n) (drop n rest))"
  by pat_completeness auto

termination
proof (relation "measure (\<lambda>(st, i, rest). 2 * length rest + (if is_data st then 1 else 0))", goal_cases)
  case (2 st i rest b bs st' r n)
  then have "chunk_pass st b bs = (st', Inr n)" by simp
  from chunk_pass_progress [OF this] 2 show ?case by (auto split: if_splits)
qed simp

declare feed_loop.simps [simp del]

definition feed_chunked :: "chunk_state \<Rightarrow> string \<Rightarrow> chunk_state \<times> (framing_error + progress)" where
  "feed_chunked st input = feed_loop st 0 input"

definition framer_is_done :: "body_framer \<Rightarrow> bool" where
  "framer_is_done f =
     (if error f \<noteq> None then False
      else case inner f of ILength remaining _ \<Rightarrow> remaining = 0 | IChunked st \<Rightarrow> st = Done)"

definition framer_is_chunked :: "body_framer \<Rightarrow> bool" where
  "framer_is_chunked f = (case inner f of IChunked _ \<Rightarrow> True | _ \<Rightarrow> False)"

definition framer_declared_length :: "body_framer \<Rightarrow> nat option" where
  "framer_declared_length f =
     (case inner f of ILength _ declared \<Rightarrow> Some declared | IChunked _ \<Rightarrow> None)"

definition framer_feed :: "body_framer \<Rightarrow> string \<Rightarrow> body_framer \<times> (framing_error + progress)" where
  "framer_feed f input =
     (case error f of
        Some e \<Rightarrow> (f, Inl e)
      | None \<Rightarrow>
          if framer_is_done f then (f, Inr \<lparr>forward = 0, finished = True\<rparr>)
          else case inner f of
            ILength remaining declared \<Rightarrow>
              let take' = min remaining (length input)
              in (f\<lparr>inner := ILength (remaining - take') declared\<rparr>,
                  Inr \<lparr>forward = take', finished = (remaining - take' = 0)\<rparr>)
          | IChunked st \<Rightarrow>
              (case feed_chunked st input of
                 (st', Inr p) \<Rightarrow> (f\<lparr>inner := IChunked st'\<rparr>, Inr p)
               | (st', Inl e) \<Rightarrow> (f\<lparr>inner := IChunked st', error := Some e\<rparr>, Inl e)))"

section \<open>Byte at a time\<close>

definition chunk_byte :: "chunk_state \<Rightarrow> char \<Rightarrow> chunk_state \<times> framing_error option" where
  "chunk_byte st b =
     (case st of
        Data r \<Rightarrow>
          if r = 0 then (if b = cr then (DataLf, None) else (DataCr, Some MissingCrlf))
          else (if r = 1 then DataCr else Data (r - 1), None)
      | _ \<Rightarrow> (case chunk_pass st b [] of (st', Inl e) \<Rightarrow> (st', Some e) | (st', Inr _) \<Rightarrow> (st', None)))"

fun run_bytes :: "chunk_state \<Rightarrow> nat \<Rightarrow> string \<Rightarrow> chunk_state \<times> (framing_error + progress)" where
  "run_bytes st i [] = (st, Inr \<lparr>forward = i, finished = (st = Done)\<rparr>)"
| "run_bytes st i (b # bs) =
     (if st = Done then (st, Inr \<lparr>forward = i, finished = True\<rparr>)
      else case chunk_byte st b of
        (st', Some e) \<Rightarrow> (st', Inl e)
      | (st', None) \<Rightarrow> run_bytes st' (i + 1) bs)"

lemma run_bytes_data:
  "r \<le> length xs \<Longrightarrow> 0 < r \<Longrightarrow> run_bytes (Data r) i xs = run_bytes DataCr (i + r) (drop r xs)"
proof (induction xs arbitrary: r i)
  case (Cons x xs)
  show ?case
  proof (cases "r = 1")
    case True
    then show ?thesis by (simp add: chunk_byte_def)
  next
    case False
    then have r: "r - 1 \<le> length xs" "0 < r - 1" "drop r (x # xs) = drop (r - 1) xs"
      using Cons.prems by (auto simp: drop_Cons')
    have "run_bytes (Data r) i (x # xs) = run_bytes (Data (r - 1)) (i + 1) xs"
      using False Cons.prems by (simp add: chunk_byte_def)
    then show ?thesis using Cons.IH [OF r(1,2), of "i + 1"] r(3) Cons.prems by simp
  qed
qed simp

lemma run_bytes_data_short:
  "length xs < r \<Longrightarrow>
     run_bytes (Data r) i xs = (Data (r - length xs), Inr \<lparr>forward = i + length xs, finished = False\<rparr>)"
  by (induction xs arbitrary: r i) (auto simp: chunk_byte_def)

lemma chunk_pass_rest: "\<not> is_data st \<Longrightarrow> chunk_pass st b bs = chunk_pass st b []"
  by (cases st) (simp_all add: is_data_def)

lemma chunk_pass_one:
  "\<not> is_data st \<Longrightarrow> st \<noteq> Done \<Longrightarrow> chunk_pass st b bs = (st', Inr n) \<Longrightarrow> n = 1"
  by (cases st) (simp_all add: is_data_def Let_def split: if_splits option.splits)

lemma chunk_byte_pass:
  "\<not> is_data st \<Longrightarrow>
     chunk_byte st b = (case chunk_pass st b bs of (st', Inl e) \<Rightarrow> (st', Some e) | (st', Inr n) \<Rightarrow> (st', None))"
  unfolding chunk_pass_rest [of st b bs]
  by (cases st) (simp_all only: chunk_byte_def is_data_def chunk_state.case simp_thms)

lemma feed_loop_run_bytes: "feed_loop st i xs = run_bytes st i xs"
proof (induction st i xs rule: feed_loop.induct)
  case (1 st i xs)
  show ?case
  proof (cases xs)
    case Nil
    then show ?thesis by (simp add: feed_loop.simps)
  next
    case (Cons b bs)
    show ?thesis
    proof (cases "st = Done")
      case True
      then show ?thesis using Cons by (simp add: feed_loop.simps)
    next
      case False
      obtain st' r where p: "chunk_pass st b bs = (st', r)" by fastforce
      have IH: "feed_loop st' (i + n) (drop n xs) = run_bytes st' (i + n) (drop n xs)" if "r = Inr n" for n
        using 1 [OF Cons False p [symmetric] that] by simp
      have step: "feed_loop st i xs = (case r of Inl e \<Rightarrow> (st', Inl e)
          | Inr n \<Rightarrow> run_bytes st' (i + n) (drop n xs))"
        using IH False p Cons by (subst feed_loop.simps) (simp split: sum.split)
      show ?thesis
      proof (cases "is_data st")
        case True
        then obtain m where m: "st = Data m" by (auto simp: is_data_def split: chunk_state.splits)
        show ?thesis
        proof (cases "m = 0")
          case True
          then show ?thesis using step p m Cons by (auto simp: chunk_byte_def)
        next
          case m0: False
          show ?thesis
          proof (cases "m \<le> length xs")
            case True
            then show ?thesis
              using step p m m0 Cons run_bytes_data [of m xs i] by (auto simp: Let_def min_def)
          next
            case False
            then show ?thesis
              using step p m m0 Cons run_bytes_data_short [of xs m i] by (auto simp: Let_def min_def)
          qed
        qed
      next
        case nd: False
        show ?thesis
          using step p Cons False chunk_byte_pass [OF nd, of b bs] chunk_pass_one [OF nd False, of b bs]
          by (auto split: sum.splits)
      qed
    qed
  qed
qed

lemma run_bytes_append:
  "run_bytes st i (xs @ ys) =
     (case run_bytes st i xs of
        (st', Inl e) \<Rightarrow> (st', Inl e)
      | (st', Inr p) \<Rightarrow> if finished p then (st', Inr p) else run_bytes st' (forward p) ys)"
proof (induction xs arbitrary: st i)
  case Nil
  then show ?case by (cases ys) auto
next
  case (Cons x xs)
  then show ?case by (auto split: prod.splits option.splits)
qed

lemma run_bytes_shift:
  "run_bytes st (k + i) xs =
     (case run_bytes st i xs of
        (st', Inl e) \<Rightarrow> (st', Inl e) | (st', Inr p) \<Rightarrow> (st', Inr (p\<lparr>forward := k + forward p\<rparr>)))"
proof (induction xs arbitrary: st i)
  case (Cons x xs)
  then show ?case using Cons [of _ "Suc i"] by (auto split: prod.splits option.splits)
qed simp

lemma run_bytes_progress:
  "run_bytes st i xs = (st', Inr p) \<Longrightarrow>
     i \<le> forward p \<and> forward p \<le> i + length xs \<and> (forward p < i + length xs \<longrightarrow> finished p) \<and>
     (finished p \<longleftrightarrow> st' = Done)"
proof (induction xs arbitrary: st i)
  case (Cons x xs)
  then show ?case by (fastforce split: prod.splits option.splits if_splits)
qed auto

lemma feed_chunked_run: "feed_chunked st xs = run_bytes st 0 xs"
  by (simp add: feed_chunked_def feed_loop_run_bytes)

text \<open>
  C6. The result of framing does not depend on how the body is cut into reads: feeding a
  buffer at once, or any prefix of it and then the rest, gives the same state of the framer,
  the same error or the same total of forwarded bytes.
\<close>

theorem framer_feed_split:
  "framer_feed f (xs @ ys) =
     (case framer_feed f xs of
        (f', Inl e) \<Rightarrow> (f', Inl e)
      | (f', Inr p) \<Rightarrow>
          if finished p then (f', Inr p)
          else (case framer_feed f' ys of
                  (f'', Inl e) \<Rightarrow> (f'', Inl e)
                | (f'', Inr q) \<Rightarrow> (f'', Inr (q\<lparr>forward := forward p + forward q\<rparr>))))"
proof (cases "error f \<noteq> None \<or> framer_is_done f")
  case True
  then show ?thesis by (auto simp: framer_feed_def framer_is_done_def)
next
  case False
  show ?thesis
  proof (cases "inner f")
    case (ILength r d)
    with False show ?thesis
      by (auto simp: framer_feed_def framer_is_done_def Let_def min_def)
  next
    case (IChunked st)
    obtain st' res where r: "run_bytes st 0 xs = (st', res)" by fastforce
    show ?thesis
    proof (cases res)
      case (Inl e)
      with False IChunked r show ?thesis
        by (simp add: framer_feed_def feed_chunked_run run_bytes_append)
    next
      case (Inr p)
      have "run_bytes st 0 (xs @ ys) =
          (if finished p then (st', Inr p) else run_bytes st' (forward p + 0) ys)"
        using r Inr by (simp add: run_bytes_append)
      moreover have "\<not> finished p \<Longrightarrow> st' \<noteq> Done"
        using run_bytes_progress [of st 0 xs st' p] r Inr by simp
      ultimately show ?thesis
        using False IChunked r Inr run_bytes_shift [of st' "forward p" 0 ys]
        by (auto simp: framer_feed_def feed_chunked_run framer_is_done_def split: prod.splits sum.splits)
    qed
  qed
qed

lemma framer_feed_failed: "error f = Some e \<Longrightarrow> framer_feed f xs = (f, Inl e)"
  by (simp add: framer_feed_def)

lemma framer_feed_complete:
  "framer_is_done f \<Longrightarrow> framer_feed f xs = (f, Inr \<lparr>forward = 0, finished = True\<rparr>)"
  by (cases "error f") (simp_all add: framer_feed_def framer_is_done_def)

text \<open>
  C23. Each read forwards a prefix; bytes are held back only past the end of the body; the
  report says done exactly when the framer is; and a framer that is done or has failed
  stays so, forwarding nothing more and repeating its error.
\<close>

theorem framer_feed_forward:
  assumes "framer_feed f xs = (f', res)"
  shows "(\<forall>p. res = Inr p \<longrightarrow> forward p \<le> length xs \<and> (forward p < length xs \<longrightarrow> finished p) \<and>
           (finished p \<longleftrightarrow> framer_is_done f') \<and>
           (finished p \<longrightarrow> framer_feed f' ys = (f', Inr \<lparr>forward = 0, finished = True\<rparr>))) \<and>
         (\<forall>e. res = Inl e \<longrightarrow> \<not> framer_is_done f' \<and> framer_feed f' ys = (f', Inl e))"
proof (cases "error f \<noteq> None \<or> framer_is_done f")
  case True
  with assms show ?thesis
    using framer_feed_failed [of f] framer_feed_complete [of f]
    by (auto simp: framer_is_done_def)
next
  case False
  show ?thesis
  proof (cases "inner f")
    case (ILength r d)
    with False assms show ?thesis
      by (auto simp: framer_feed_def framer_is_done_def Let_def)
  next
    case (IChunked st)
    obtain st' res' where r: "run_bytes st 0 xs = (st', res')" by fastforce
    with False IChunked assms have "res = res'" by (auto simp: framer_feed_def feed_chunked_run split: sum.splits)
    with False IChunked assms r run_bytes_progress [of st 0 xs st'] show ?thesis
      by (auto simp: framer_feed_def feed_chunked_run framer_is_done_def split: sum.splits)
  qed
qed

theorem framer_feed_forward_witness:
  "\<exists>f' p. framer_feed (framer_new (ContentLength 2)) ''abc'' = (f', Inr p) \<and> forward p = 2 \<and>
     framer_feed f' ''d'' = (f', Inr \<lparr>forward = 0, finished = True\<rparr>)"
proof -
  let ?f' = "\<lparr>inner = ILength 0 2, error = None\<rparr> :: body_framer"
  have e: "framer_feed (framer_new (ContentLength 2)) ''abc'' = (?f', Inr \<lparr>forward = 2, finished = True\<rparr>)"
    by (simp add: framer_new_def framer_feed_def framer_is_done_def)
  with framer_feed_forward [OF e, of "''d''"] show ?thesis by simp
qed

section \<open>Grammar of a chunked body\<close>

definition hex_fold :: "nat \<Rightarrow> string \<Rightarrow> nat" where
  "hex_fold v ds = foldl (\<lambda>v c. v * 16 + the (hex_digit c)) v ds"

definition is_hex :: "char \<Rightarrow> bool" where "is_hex c \<longleftrightarrow> hex_digit c \<noteq> None"

definition ext_start :: "char \<Rightarrow> bool" where
  "ext_start c \<longleftrightarrow> c = CHR '';'' \<or> c = CHR '' '' \<or> c = tab"

definition ext_char :: "char \<Rightarrow> bool" where
  "ext_char c \<longleftrightarrow> c = tab \<or> 32 \<le> byte_of c"

text \<open>A chunk-size line, its line feed excluded: at most 16 digits and 4096 bytes.\<close>

definition size_line :: "nat \<Rightarrow> string \<Rightarrow> bool" where
  "size_line n l \<longleftrightarrow> (\<exists>ds e. l = ds @ e @ [cr] \<and> ds \<noteq> [] \<and> list_all is_hex ds \<and> length ds \<le> 16 \<and>
     (e = [] \<or> ext_start (hd e)) \<and> list_all ext_char (tl e) \<and> length l \<le> max_chunk_line \<and>
     n = hex_fold 0 ds)"

inductive chunked_body :: "string \<Rightarrow> bool" where
  last_chunk: "size_line 0 l \<Longrightarrow> chunked_body (l @ [lf, cr, lf])"
| data_chunk: "size_line n l \<Longrightarrow> 0 < n \<Longrightarrow> length d = n \<Longrightarrow> chunked_body b \<Longrightarrow>
    chunked_body (l @ [lf] @ d @ [cr, lf] @ b)"

text \<open>The strings a state accepts: those that take it to the end, and not before.\<close>

fun lang :: "chunk_state \<Rightarrow> string \<Rightarrow> bool" where
  "lang st [] \<longleftrightarrow> st = Done"
| "lang st (b # bs) \<longleftrightarrow> st \<noteq> Done \<and> (case chunk_byte st b of (st', None) \<Rightarrow> lang st' bs | _ \<Rightarrow> False)"

lemma run_bytes_lang:
  "(\<exists>st' p. run_bytes st i s = (st', Inr p) \<and> finished p \<and> forward p = i + length body) \<and>
     (\<exists>rest. s = body @ rest)
   \<longleftrightarrow> lang st body \<and> (\<exists>rest. s = body @ rest)"
proof (induction body arbitrary: st i s)
  case Nil
  show ?case
  proof
    assume "(\<exists>st' p. run_bytes st i s = (st', Inr p) \<and> finished p \<and> forward p = i + length []) \<and>
        (\<exists>rest. s = [] @ rest)"
    then obtain st' p where r: "run_bytes st i s = (st', Inr p)" "finished p" "forward p = i" by auto
    have "st = Done"
    proof (rule ccontr)
      assume "st \<noteq> Done"
      with r obtain b s' st'' where "s = b # s'" "run_bytes st'' (i + 1) s' = (st', Inr p)"
        by (cases s; cases p) (auto split: prod.splits option.splits)
      with run_bytes_progress [of st'' "i + 1" s' st' p] r(3) show False by simp
    qed
    then show "lang st [] \<and> (\<exists>rest. s = [] @ rest)" by simp
  next
    assume "lang st [] \<and> (\<exists>rest. s = [] @ rest)"
    then show "(\<exists>st' p. run_bytes st i s = (st', Inr p) \<and> finished p \<and> forward p = i + length []) \<and>
        (\<exists>rest. s = [] @ rest)" by (cases s) auto
  qed
next
  case (Cons b body)
  show ?case
  proof (cases s)
    case Nil
    then show ?thesis by simp
  next
    case (Cons b' s')
    show ?thesis
      using Cons.IH [of _ "i + 1" s'] Cons
      by (cases "st = Done") (auto split: prod.splits option.splits, blast)
  qed
qed

lemma lang_trailer [simp]: "lang TrailerStart s \<longleftrightarrow> s = [cr, lf]"
proof -
  have "lang TrailerLf s \<longleftrightarrow> s = [lf]" for s
    by (cases s) (auto simp: chunk_byte_def neq_Nil_conv elim!: lang.elims)
  then show ?thesis by (cases s) (auto simp: chunk_byte_def)
qed

lemma lang_data_cr [simp]: "lang DataCr s \<longleftrightarrow> (\<exists>b. s = [cr, lf] @ b \<and> lang (SizeDigits 0 0 0) b)"
proof -
  have "lang DataLf s \<longleftrightarrow> (\<exists>b. s = lf # b \<and> lang (SizeDigits 0 0 0) b)" for s
    by (cases s) (auto simp: chunk_byte_def)
  then show ?thesis by (cases s) (auto simp: chunk_byte_def)
qed

lemma lang_data:
  "0 < r \<Longrightarrow> lang (Data r) s \<longleftrightarrow> (\<exists>d b. length d = r \<and> s = d @ b \<and> lang DataCr b)"
proof (induction r arbitrary: s)
  case (Suc r)
  show ?case
  proof (cases s)
    case Nil
    then show ?thesis by simp
  next
    case (Cons x s')
    have "lang (Data (Suc r)) s \<longleftrightarrow> (if r = 0 then lang DataCr s' else lang (Data r) s')"
      using Cons by (simp add: chunk_byte_def)
    also have "\<dots> \<longleftrightarrow> (\<exists>d b. length d = r \<and> s' = d @ b \<and> lang DataCr b)"
      using Suc.IH by simp
    also have "\<dots> \<longleftrightarrow> (\<exists>d b. length d = Suc r \<and> s = d @ b \<and> lang DataCr b)"
      using Cons by (auto simp: length_Suc_conv Cons_eq_append_conv)
    finally show ?thesis .
  qed
qed simp

lemma lang_size_lf:
  "lang (SizeLf v) s \<longleftrightarrow>
     (\<exists>b. s = lf # b \<and> (if v = 0 then b = [cr, lf] else
        (\<exists>d b'. length d = v \<and> b = d @ [cr, lf] @ b' \<and> lang (SizeDigits 0 0 0) b')))"
  by (cases s) (auto simp: chunk_byte_def lang_data)

lemma delims_not_ext: "\<not> ext_char cr" "\<not> ext_char lf"
  by (simp_all add: ext_char_def byte_of_def)

lemma ext_char_iff: "x \<noteq> lf \<Longrightarrow> ext_char x \<longleftrightarrow> \<not> (byte_of x < 32 \<and> x \<noteq> tab)"
  by (auto simp: ext_char_def)

lemma lang_ext_byte:
  "lang (Ext v l) (x # s) \<longleftrightarrow> l + 1 \<le> max_chunk_line \<and>
     (if x = cr then lang (SizeLf v) s else ext_char x \<and> lang (Ext v (l + 1)) s)"
proof (cases "x = cr \<or> x = lf")
  case True
  then show ?thesis using delims_not_ext by (auto simp: chunk_byte_def Let_def)
next
  case False
  then show ?thesis by (simp add: chunk_byte_def Let_def ext_char_iff)
qed

lemma lang_ext:
  "lang (Ext v l) s \<longleftrightarrow>
     (\<exists>e b. s = e @ cr # b \<and> list_all ext_char e \<and> l + length e + 1 \<le> max_chunk_line \<and> lang (SizeLf v) b)"
    (is "_ \<longleftrightarrow> (\<exists>e b. ?Q l s e b)")
proof (induction s arbitrary: l)
  case Nil
  then show ?case by simp
next
  case (Cons x s)
  show ?case
  proof (cases "x = cr")
    case True
    have "?Q l (x # s) e b \<Longrightarrow> e = [] \<and> b = s" for e b
      using True delims_not_ext by (cases e) auto
    moreover have "lang (Ext v l) (x # s) \<longleftrightarrow> ?Q l (x # s) [] s"
      using True by (simp add: lang_ext_byte del: lang.simps)
    ultimately show ?thesis by blast
  next
    case False
    have "?Q l (x # s) e b \<longleftrightarrow>
        (\<exists>e'. e = x # e' \<and> l + 1 \<le> max_chunk_line \<and> ext_char x \<and> ?Q (l + 1) s e' b)" for e b
      using False by (cases e) auto
    then show ?thesis using False by (simp add: lang_ext_byte Cons.IH del: lang.simps) blast
  qed
qed

lemma hex_digit_less: "hex_digit c = Some k \<Longrightarrow> k < 16"
  by (auto simp: hex_digit_def Let_def split: if_splits)

lemma hex_step_bound:
  assumes "v < 16 ^ d" "hex_digit c = Some k"
  shows "v * 16 + k < 16 ^ Suc d"
  using assms hex_digit_less [OF assms(2)] by simp

lemma hex_step_exact:
  assumes "v < 16 ^ d" "d < 16" "hex_digit c = Some k"
  shows "Option.bind (checked_mul_u64 v 16) (\<lambda>w. checked_add_u64 w k) = Some (v * 16 + k)"
proof -
  have "(16 :: nat) ^ Suc d \<le> 16 ^ 16" using assms(2) by (intro power_increasing) auto
  with hex_step_bound [OF assms(1,3)] have "v * 16 + k \<le> u64_max" by (simp add: u64_max_def)
  then show ?thesis by (simp add: checked_mul_u64_def checked_add_u64_def)
qed

lemma lang_digits_byte:
  assumes "v < 16 ^ d"
  shows "lang (SizeDigits v d l) (x # s) \<longleftrightarrow> l + 1 \<le> max_chunk_line \<and>
    (if is_hex x then d < 16 \<and> lang (SizeDigits (v * 16 + the (hex_digit x)) (Suc d) (l + 1)) s
     else 0 < d \<and> (if ext_start x then lang (Ext v (l + 1)) s else x = cr \<and> lang (SizeLf v) s))"
proof (cases "hex_digit x")
  case None
  then show ?thesis by (auto simp: chunk_byte_def Let_def is_hex_def ext_start_def)
next
  case (Some k)
  then show ?thesis
    using hex_step_exact [OF assms _ Some] by (auto simp: chunk_byte_def Let_def is_hex_def)
qed

lemma delims_not_hex: "ext_start x \<Longrightarrow> \<not> is_hex x" "\<not> is_hex cr" "\<not> ext_start cr"
  by (auto simp: ext_start_def is_hex_def hex_digit_def byte_of_def)

lemma lang_digits:
  assumes "v < 16 ^ d" "d \<le> 16"
  shows "lang (SizeDigits v d l) s \<longleftrightarrow>
     (\<exists>ds e b. s = ds @ e @ cr # b \<and> list_all is_hex ds \<and> d + length ds \<le> 16 \<and> 0 < d + length ds \<and>
        (e = [] \<or> ext_start (hd e)) \<and> list_all ext_char (tl e) \<and>
        l + length ds + length e + 1 \<le> max_chunk_line \<and> lang (SizeLf (hex_fold v ds)) b)"
    (is "_ \<longleftrightarrow> (\<exists>ds e b. ?Q v d l s ds e b)")
  using assms
proof (induction s arbitrary: v d l)
  case Nil
  then show ?case by simp
next
  case (Cons x s)
  show ?case
  proof (cases "is_hex x")
    case True
    then have b: "v * 16 + the (hex_digit x) < 16 ^ Suc d"
      using hex_step_bound [OF Cons.prems(1)] by (auto simp: is_hex_def)
    have "lang (SizeDigits v d l) (x # s) \<longleftrightarrow> l + 1 \<le> max_chunk_line \<and> d < 16 \<and>
        (\<exists>ds e b. ?Q (v * 16 + the (hex_digit x)) (Suc d) (l + 1) s ds e b)"
      using lang_digits_byte [OF Cons.prems(1)] Cons.IH [OF b] True by (cases "d < 16") simp_all
    also have "\<dots> \<longleftrightarrow> (\<exists>ds e b. l + 1 \<le> max_chunk_line \<and> d < 16 \<and>
        ?Q (v * 16 + the (hex_digit x)) (Suc d) (l + 1) s ds e b)" by blast
    also have "\<dots> \<longleftrightarrow> (\<exists>ds e b. ?Q v d l (x # s) (x # ds) e b)"
    proof (intro arg_cong [of _ _ Ex] ext)
      show "(l + 1 \<le> max_chunk_line \<and> d < 16 \<and> ?Q (v * 16 + the (hex_digit x)) (Suc d) (l + 1) s ds e b)
          \<longleftrightarrow> ?Q v d l (x # s) (x # ds) e b" for ds e b
        using True by (auto simp: hex_fold_def)
    qed
    also have "\<dots> \<longleftrightarrow> (\<exists>ds e b. ?Q v d l (x # s) ds e b)"
    proof
      assume "\<exists>ds e b. ?Q v d l (x # s) ds e b"
      then obtain ds e b where q: "?Q v d l (x # s) ds e b" by blast
      have "ds \<noteq> []" using q True delims_not_hex by (cases e) auto
      with q show "\<exists>ds e b. ?Q v d l (x # s) (x # ds) e b" by (cases ds) auto
    qed blast
    finally show ?thesis .
  next
    case False
    have nil: "?Q v d l (x # s) ds e b \<Longrightarrow> ds = []" for ds e b using False by (cases ds) auto
    show ?thesis
    proof (cases "ext_start x")
      case True
      have "lang (SizeDigits v d l) (x # s) \<longleftrightarrow> l + 1 \<le> max_chunk_line \<and> 0 < d \<and>
          (\<exists>e b. s = e @ cr # b \<and> list_all ext_char e \<and> l + 1 + length e + 1 \<le> max_chunk_line \<and> lang (SizeLf v) b)"
        using lang_digits_byte [OF Cons.prems(1)] False True by (simp add: lang_ext)
      also have "\<dots> \<longleftrightarrow> (\<exists>e b. ?Q v d l (x # s) [] (x # e) b)"
        using True Cons.prems(2) by (fastforce simp: hex_fold_def)
      also have "\<dots> \<longleftrightarrow> (\<exists>ds e b. ?Q v d l (x # s) ds e b)"
      proof
        assume "\<exists>ds e b. ?Q v d l (x # s) ds e b"
        then obtain ds e b where q: "?Q v d l (x # s) ds e b" by blast
        with nil [OF q] True delims_not_hex(3) show "\<exists>e b. ?Q v d l (x # s) [] (x # e) b"
          by (cases e) auto
      qed blast
      finally show ?thesis .
    next
      case ne: False
      have "lang (SizeDigits v d l) (x # s) \<longleftrightarrow> l + 1 \<le> max_chunk_line \<and> 0 < d \<and> x = cr \<and> lang (SizeLf v) s"
        using lang_digits_byte [OF Cons.prems(1)] False ne by simp
      also have "\<dots> \<longleftrightarrow> ?Q v d l (x # s) [] [] s"
        using Cons.prems(2) by (auto simp: hex_fold_def)
      also have "\<dots> \<longleftrightarrow> (\<exists>ds e b. ?Q v d l (x # s) ds e b)"
      proof
        assume "\<exists>ds e b. ?Q v d l (x # s) ds e b"
        then obtain ds e b where q: "?Q v d l (x # s) ds e b" by blast
        with nil [OF q] ne show "?Q v d l (x # s) [] [] s" by (cases e) auto
      qed blast
      finally show ?thesis .
    qed
  qed
qed

lemma lang_chunk:
  "lang (SizeDigits 0 0 0) s \<longleftrightarrow>
     (\<exists>n l b. size_line n l \<and> s = l @ lf # b \<and>
        (if n = 0 then b = [cr, lf]
         else \<exists>d b'. length d = n \<and> b = d @ [cr, lf] @ b' \<and> lang (SizeDigits 0 0 0) b'))"
    (is "_ \<longleftrightarrow> ?R")
proof
  assume "lang (SizeDigits 0 0 0) s"
  then obtain ds e b where q: "s = ds @ e @ cr # b" "list_all is_hex ds" "length ds \<le> 16" "ds \<noteq> []"
    "e = [] \<or> ext_start (hd e)" "list_all ext_char (tl e)" "length ds + length e + 1 \<le> max_chunk_line"
    "lang (SizeLf (hex_fold 0 ds)) b"
    by (subst (asm) lang_digits) auto
  have l: "size_line (hex_fold 0 ds) (ds @ e @ [cr])"
    unfolding size_line_def using q by (intro exI [of _ ds] exI [of _ e]) auto
  from q(8) obtain b0 where b0: "b = lf # b0" "if hex_fold 0 ds = 0 then b0 = [cr, lf]
      else \<exists>d b'. length d = hex_fold 0 ds \<and> b0 = d @ [cr, lf] @ b' \<and> lang (SizeDigits 0 0 0) b'"
    unfolding lang_size_lf by blast
  have "s = (ds @ e @ [cr]) @ lf # b0" using q(1) b0(1) by simp
  with l b0(2) show ?R by blast
next
  assume ?R
  then obtain n l b where r: "size_line n l" "s = l @ lf # b" "if n = 0 then b = [cr, lf]
      else \<exists>d b'. length d = n \<and> b = d @ [cr, lf] @ b' \<and> lang (SizeDigits 0 0 0) b'" by blast
  from r(1) obtain ds e where q: "l = ds @ e @ [cr]" "ds \<noteq> []" "list_all is_hex ds" "length ds \<le> 16"
    "e = [] \<or> ext_start (hd e)" "list_all ext_char (tl e)" "length l \<le> max_chunk_line" "n = hex_fold 0 ds"
    unfolding size_line_def by blast
  have "lang (SizeLf (hex_fold 0 ds)) (lf # b)"
    unfolding lang_size_lf using r(3) q(8) by blast
  then show "lang (SizeDigits 0 0 0) s"
    using q r(2) by (subst lang_digits) (simp, simp, intro exI [of _ ds] exI [of _ e] exI [of _ "lf # b"], simp)
qed

lemma lang_chunked_body: "lang (SizeDigits 0 0 0) s \<longleftrightarrow> chunked_body s"
proof
  show "lang (SizeDigits 0 0 0) s \<Longrightarrow> chunked_body s"
  proof (induction "length s" arbitrary: s rule: less_induct)
    case less
    from less.prems obtain n l b where r: "size_line n l" "s = l @ lf # b"
      "if n = 0 then b = [cr, lf]
       else \<exists>d b'. length d = n \<and> b = d @ [cr, lf] @ b' \<and> lang (SizeDigits 0 0 0) b'"
      unfolding lang_chunk [of s] by blast
    show ?case
    proof (cases "n = 0")
      case True
      then show ?thesis using r last_chunk [of l] by simp
    next
      case False
      with r(3) obtain d b' where d: "length d = n" "b = d @ [cr, lf] @ b'" "lang (SizeDigits 0 0 0) b'"
        by auto
      have "chunked_body b'" by (rule less.hyps [OF _ d(3)]) (simp add: r(2) d(2))
      then show ?thesis using data_chunk [OF r(1) _ d(1), of b'] False r(2) d(2) by simp
    qed
  qed
next
  show "chunked_body s \<Longrightarrow> lang (SizeDigits 0 0 0) s"
  proof (induction rule: chunked_body.induct)
    case (last_chunk l)
    then show ?case
      unfolding lang_chunk [of "l @ _"] by (intro exI [of _ 0] exI [of _ l] exI [of _ "[cr, lf]"]) simp
  next
    case (data_chunk n l d b)
    then show ?case
      unfolding lang_chunk [of "l @ _"]
      by (intro exI [of _ n] exI [of _ l] exI [of _ "d @ [cr, lf] @ b"]) auto
  qed
qed

text \<open>
  C2. The chunked framer accepts exactly the grammar of chunked bodies with an empty
  trailer: it reports done with \<open>forward\<close> bytes of what a client sent if and only if
  those bytes are such a body, its size lines of at most 16 digits and 4096 bytes, each
  chunk as long as its line says.
\<close>

theorem feed_chunked_grammar:
  "(\<exists>st' p. feed_chunked (SizeDigits 0 0 0) (body @ rest) = (st', Inr p) \<and> finished p \<and>
      forward p = length body) \<longleftrightarrow> chunked_body body"
  using run_bytes_lang [of "SizeDigits 0 0 0" 0 "body @ rest" body] lang_chunked_body [of body]
  by (simp add: feed_chunked_run)

end
