(* ===== verification/Transfer_Filename.thy ===== *)
theory Transfer_Filename
  imports Rust_Text
begin

text \<open>
  The validation and the encodings of a download filename in
  \<^verbatim>\<open>src/src/transfer_link/source.rs\<close>: \<^verbatim>\<open>validate_filename\<close>, \<^verbatim>\<open>encode_path_segment\<close>,
  \<^verbatim>\<open>content_disposition\<close>, \<^verbatim>\<open>validate_limits\<close>. A name is the list of its UTF-8 bytes, so a
  character above ASCII is a lead byte and its continuation bytes.
\<close>

section \<open>Validation\<close>

definition max_filename_bytes :: nat where "max_filename_bytes = 255"

datatype filename_error =
    FilenameEmpty
  | FilenameTooLong nat
  | DotComponent
  | ControlCharacter
  | Separator
  | MissingBasename
  | NonUtf8

text \<open>
  \<^verbatim>\<open>char::is_control\<close> on UTF-8 text: U+0000 to U+001F and U+007F are one byte, U+0080 to
  U+009F are the byte C2 and a byte from 80 to 9F.
\<close>

fun has_control :: "string \<Rightarrow> bool" where
  "has_control [] = False"
| "has_control (c # cs) =
     (byte_of c < 32 \<or> byte_of c = 127 \<or>
      (byte_of c = 0xC2 \<and> (case cs of [] \<Rightarrow> False | d # _ \<Rightarrow> 0x80 \<le> byte_of d \<and> byte_of d \<le> 0x9F)) \<or>
      has_control cs)"

abbreviation slash :: char where "slash \<equiv> CHR ''/''"
abbreviation backslash :: char where "backslash \<equiv> CHR 0x5C"

definition validate_filename :: "string \<Rightarrow> filename_error + unit" where
  "validate_filename filename =
     (if filename = [] then Inl FilenameEmpty
      else if max_filename_bytes < length filename then Inl (FilenameTooLong (length filename))
      else if filename = ''.'' \<or> filename = ''..'' then Inl DotComponent
      else if has_control filename then Inl ControlCharacter
      else if list_ex (\<lambda>c. c = slash \<or> c = backslash) filename then Inl Separator
      else Inr ())"

section \<open>Percent encoding\<close>

definition hex_upper :: "nat \<Rightarrow> char" where
  "hex_upper n = char_of (if n \<le> 9 then 48 + n else 65 + n - 10)"

definition unreserved :: "char \<Rightarrow> bool" where
  "unreserved c \<longleftrightarrow> is_ascii_alphanumeric c \<or> c \<in> {CHR ''-'', CHR ''.'', CHR ''_'', CHR ''~''}"

fun encode_path_segment :: "string \<Rightarrow> string" where
  "encode_path_segment [] = []"
| "encode_path_segment (c # cs) =
     (if unreserved c then c # encode_path_segment cs
      else CHR ''%'' # hex_upper (byte_of c div 16) # hex_upper (byte_of c mod 16)
             # encode_path_segment cs)"

section \<open>Content disposition\<close>

definition quotable :: "char \<Rightarrow> bool" where
  "quotable c \<longleftrightarrow> is_ascii_alphanumeric c \<or>
     c \<in> set '' !#$&+-.^_|~'' \<or> c = CHR 0x60"

text \<open>One character of the fallback for each character of the name: continuation bytes add none.\<close>

definition ascii_fallback :: "string \<Rightarrow> string" where
  "ascii_fallback s =
     map (\<lambda>c. if quotable c then c else CHR ''_'') (filter (\<lambda>c. \<not> cont_byte (byte_of c)) s)"

abbreviation dquote :: char where "dquote \<equiv> CHR 0x22"
abbreviation squote :: char where "squote \<equiv> CHR 0x27"

definition content_disposition :: "string \<Rightarrow> filename_error + string" where
  "content_disposition filename =
     rbind (validate_filename filename) (\<lambda>_.
       let fallback = ascii_fallback filename;
           fallback = (if fallback = [] then ''download'' else fallback)
       in Inr (''attachment; filename='' @ [dquote] @ fallback @ [dquote]
               @ ''; filename*=UTF-8'' @ [squote, squote] @ encode_path_segment filename))"

section \<open>Limits\<close>

definition max_downloads_limit :: nat where "max_downloads_limit = 256"
definition min_stats_interval_secs :: nat where "min_stats_interval_secs = 1"
definition max_stats_interval_secs :: nat where "max_stats_interval_secs = 60"

datatype link_config_error = LinkFilename filename_error | MaxDownloads nat | StatsInterval nat

text \<open>The interval is in nanoseconds.\<close>

definition validate_limits :: "nat \<Rightarrow> nat \<Rightarrow> link_config_error + unit" where
  "validate_limits max_downloads stats_interval =
     (if \<not> (1 \<le> max_downloads \<and> max_downloads \<le> max_downloads_limit)
      then Inl (MaxDownloads max_downloads)
      else let seconds = stats_interval div 1000000000
           in if stats_interval = 0 \<or> stats_interval mod 1000000000 \<noteq> 0 \<or>
                 \<not> (min_stats_interval_secs \<le> seconds \<and> seconds \<le> max_stats_interval_secs)
              then Inl (StatsInterval seconds) else Inr ())"

section \<open>Facts\<close>

definition printable :: "char \<Rightarrow> bool" where
  "printable c \<longleftrightarrow> 32 \<le> byte_of c \<and> byte_of c \<le> 126"

lemma byte_of_hex_upper: "n < 16 \<Longrightarrow> byte_of (hex_upper n) = (if n \<le> 9 then 48 + n else 55 + n)"
  by (simp add: hex_upper_def)

lemma byte_of_literals [simp]:
  "byte_of CHR ''%'' = 37" "byte_of CHR ''-'' = 45" "byte_of CHR ''.'' = 46" "byte_of CHR ''_'' = 95"
  "byte_of CHR ''~'' = 126" "byte_of dquote = 34" "byte_of squote = 39" "byte_of CHR 0x60 = 96"
  "byte_of slash = 47" "byte_of backslash = 92"
  by (simp_all add: byte_of_def)

lemma unreserved_printable: "unreserved c \<Longrightarrow> printable c \<and> c \<noteq> dquote \<and> c \<noteq> CHR ''%'' \<and> c \<noteq> slash"
  by (auto simp: unreserved_def printable_def is_ascii_alphanumeric_def is_ascii_digit_def
      is_ascii_upper_def is_ascii_lower_def byte_of_def)

lemma encode_path_segment_safe:
  "c \<in> set (encode_path_segment s) \<Longrightarrow> printable c \<and> c \<noteq> dquote \<and> c \<noteq> slash"
proof (induction s)
  case (Cons x s)
  have hex: "printable (hex_upper n) \<and> hex_upper n \<noteq> dquote \<and> hex_upper n \<noteq> slash" if "n < 16" for n
  proof -
    have "byte_of (hex_upper n) \<noteq> byte_of dquote" "byte_of (hex_upper n) \<noteq> byte_of slash"
      using byte_of_hex_upper [OF that] by auto
    moreover have "printable (hex_upper n)"
      using that by (simp add: printable_def byte_of_hex_upper)
    ultimately show ?thesis by metis
  qed
  have "byte_of x div 16 < 16" using byte_of_less [of x] by (simp add: less_mult_imp_div_less)
  then show ?case
    using Cons hex [of "byte_of x div 16"] hex [of "byte_of x mod 16"] unreserved_printable [of x]
    by (auto simp: printable_def split: if_splits)
qed simp

lemma quotable_printable: "quotable c \<Longrightarrow> printable c \<and> c \<noteq> dquote"
  by (auto simp: quotable_def printable_def is_ascii_alphanumeric_def is_ascii_digit_def
      is_ascii_upper_def is_ascii_lower_def byte_of_def)

lemma ascii_fallback_safe: "c \<in> set (ascii_fallback s) \<Longrightarrow> printable c \<and> c \<noteq> dquote"
  using quotable_printable by (auto simp: ascii_fallback_def printable_def)

text \<open>
  C24. The attachment header built from a name cannot be broken out of: whatever bytes the
  name has, the header value is printable ASCII, so it holds no line break, and it holds no
  quote besides the two around the fallback name.
\<close>

theorem content_disposition_safe:
  assumes "content_disposition filename = Inr s"
  shows "list_all printable s \<and>
    (\<exists>fallback. s = ''attachment; filename='' @ [dquote] @ fallback @ [dquote]
        @ ''; filename*=UTF-8'' @ [squote, squote] @ encode_path_segment filename \<and>
      dquote \<notin> set fallback \<and> dquote \<notin> set (encode_path_segment filename))"
proof -
  let ?fb = "if ascii_fallback filename = [] then ''download'' else ascii_fallback filename"
  have s: "s = ''attachment; filename='' @ [dquote] @ ?fb @ [dquote]
        @ ''; filename*=UTF-8'' @ [squote, squote] @ encode_path_segment filename"
    using assms unfolding content_disposition_def Let_def by (auto simp: rbind_Inr_iff)
  have fb: "c \<in> set ?fb \<Longrightarrow> printable c \<and> c \<noteq> dquote" for c
    using ascii_fallback_safe [of c filename] by (auto simp: printable_def byte_of_def split: if_splits)
  have "list_all printable ''attachment; filename=''" "list_all printable [dquote]"
    "list_all printable ''; filename*=UTF-8''" "list_all printable [squote, squote]"
    by (simp_all add: printable_def byte_of_def)
  moreover have "list_all printable ?fb" "list_all printable (encode_path_segment filename)"
    using fb encode_path_segment_safe unfolding list_all_iff by blast+
  ultimately have "list_all printable s" unfolding s list_all_append by blast
  moreover have "dquote \<notin> set ?fb" "dquote \<notin> set (encode_path_segment filename)"
    using fb encode_path_segment_safe by blast+
  ultimately show ?thesis using s by blast
qed

theorem content_disposition_safe_witness:
  "\<exists>s. content_disposition [CHR ''a'', dquote, CHR ''b''] = Inr s \<and> list_all printable s"
proof -
  have "validate_filename [CHR ''a'', dquote, CHR ''b''] = Inr ()"
    by (simp add: validate_filename_def max_filename_bytes_def byte_of_def)
  then have "\<exists>s. content_disposition [CHR ''a'', dquote, CHR ''b''] = Inr s"
    by (simp add: content_disposition_def Let_def)
  with content_disposition_safe show ?thesis by blast
qed

end
