(* ===== verification/Fast_Link_Request.thy ===== *)
theory Fast_Link_Request
  imports Fast_Link_Framing Transfer_Filename
begin

text \<open>
  \<^verbatim>\<open>src/src/fast_link/request.rs\<close>: the request head of the fast link relay, the framing
  and target rules, the verdict on link previews and the host check. A response status is a
  number; \<open>Inl 400\<close> is the answer \<^verbatim>\<open>Err(400)\<close>.
\<close>

section \<open>Request head\<close>

record request_head =
  meth :: string
  target :: string
  headers :: "(string \<times> string) list"

definition header :: "request_head \<Rightarrow> string \<Rightarrow> string option" where
  "header h name =
     map_option snd (List.find (\<lambda>(n, _). eq_ignore_ascii_case n name) (headers h))"

definition header_count :: "request_head \<Rightarrow> string \<Rightarrow> nat" where
  "header_count h name = length (filter (\<lambda>(n, _). eq_ignore_ascii_case n name) (headers h))"

datatype head_error = TooLarge | Malformed

definition max_headers :: nat where "max_headers = 64"

abbreviation crlf :: string where "crlf \<equiv> [cr, lf]"

definition head_len :: "string \<Rightarrow> nat option" where
  "head_len buf = map_option (\<lambda>i. i + 4) (find_str (crlf @ crlf) buf)"

text \<open>The loop over the header lines; \<open>acc\<close> is the vector built so far.\<close>

fun header_lines ::
  "(string \<times> string) list \<Rightarrow> string list \<Rightarrow> head_error + (string \<times> string) list" where
  "header_lines acc [] = Inr acc"
| "header_lines acc (line # lines) =
     (if line = [] then header_lines acc lines
      else if starts_with '' '' line \<or> starts_with [tab] line then Inl Malformed
      else case split_once CHR '':'' line of
        None \<Rightarrow> Inl Malformed
      | Some (name, v) \<Rightarrow>
          if name = [] \<or> ends_with '' '' name \<or> ends_with [tab] name then Inl Malformed
          else let acc = acc @ [(name, trim v)]
               in if max_headers < length acc then Inl Malformed else header_lines acc lines)"

definition parse_request_line :: "string \<Rightarrow> head_error + string \<times> string" where
  "parse_request_line line =
     (case split_char CHR '' '' line of
        [method', target', version] \<Rightarrow>
          if method' = [] \<or> target' = [] then Inl Malformed
          else if version \<noteq> ''HTTP/1.1'' \<and> version \<noteq> ''HTTP/1.0'' then Inl Malformed
          else Inr (method', target')
      | _ \<Rightarrow> Inl Malformed)"

definition parse_head :: "string \<Rightarrow> head_error + request_head" where
  "parse_head head =
     rbind (ok_or (from_utf8 head) Malformed) (\<lambda>txt.
     rbind (ok_or (strip_suffix (crlf @ crlf) txt) Malformed) (\<lambda>body.
     case split_str crlf body of
       [] \<Rightarrow> Inl Malformed
     | request_line # lines \<Rightarrow>
         rbind (parse_request_line request_line) (\<lambda>(m, t).
         rbind (header_lines [] lines) (\<lambda>hs.
         Inr \<lparr>meth = m, target = t, headers = hs\<rparr>))))"

section \<open>Body framing and expectation\<close>

definition upload_framing :: "request_head \<Rightarrow> nat + framing" where
  "upload_framing h =
     (let te_count = header_count h ''transfer-encoding'';
          cl_count = header_count h ''content-length''
      in if 0 < te_count \<and> 0 < cl_count then Inl 400
         else if 0 < te_count then
           (if 1 < te_count then Inl 400
            else let v = (case header h ''transfer-encoding'' of Some v \<Rightarrow> v | None \<Rightarrow> []);
                     codings = map (\<lambda>c. to_ascii_lowercase (trim c)) (split_char CHR '','' v)
                 in if length codings = 1 \<and> codings ! 0 = ''chunked'' then Inr Chunked else Inl 501)
         else if 0 < cl_count then
           (if 1 < cl_count then Inl 400
            else let v = (case header h ''content-length'' of Some v \<Rightarrow> v | None \<Rightarrow> [])
                 in if v = [] \<or> 20 < length v \<or> \<not> list_all is_ascii_digit v then Inl 400
                    else (case parse_u64 v of Some n \<Rightarrow> Inr (ContentLength n) | None \<Rightarrow> Inl 400))
         else Inl 411)"

definition expects_continue :: "request_head \<Rightarrow> nat + bool" where
  "expects_continue h =
     (case header h ''expect'' of
        None \<Rightarrow> Inr False
      | Some v \<Rightarrow> if eq_ignore_ascii_case (trim v) ''100-continue'' then Inr True else Inl 417)"

section \<open>Targets\<close>

definition hex_value :: "char \<Rightarrow> nat option" where
  "hex_value c =
     (let b = byte_of c
      in if 48 \<le> b \<and> b \<le> 57 then Some (b - 48)
         else if 97 \<le> b \<and> b \<le> 102 then Some (b - 97 + 10)
         else if 65 \<le> b \<and> b \<le> 70 then Some (b - 65 + 10)
         else None)"

fun percent_decode :: "string \<Rightarrow> string option" where
  "percent_decode [] = Some []"
| "percent_decode (c # cs) =
     (if c = CHR ''%'' then
        (case cs of
           a # b # rest \<Rightarrow>
             (case hex_value a of
                None \<Rightarrow> None
              | Some hi \<Rightarrow>
                  (case hex_value b of
                     None \<Rightarrow> None
                   | Some lo \<Rightarrow> map_option ((#) (char_of (hi * 16 + lo))) (percent_decode rest)))
         | _ \<Rightarrow> None)
      else map_option ((#) c) (percent_decode cs))"

definition default_upload_filename :: string where
  "default_upload_filename = ''upload.bin''"

definition parse_upload_target :: "string \<Rightarrow> nat + string" where
  "parse_upload_target t =
     (if \<not> starts_with [slash] t then Inl 400
      else if CHR ''?'' \<in> set t \<or> CHR ''#'' \<in> set t then Inl 400
      else let rest = drop 1 t
           in if rest = [] then Inr default_upload_filename
              else if slash \<in> set rest then Inl 400
              else rbind (ok_or (percent_decode rest) 400) (\<lambda>decoded.
                   rbind (ok_or (from_utf8 decoded) 400) (\<lambda>filename.
                   rbind (map_err (\<lambda>_. 400) (validate_filename filename)) (\<lambda>_.
                   Inr filename))))"

definition fast_link_id_len :: nat where "fast_link_id_len = 16"

definition fast_link_id_alphabet :: string where
  "fast_link_id_alphabet = ''abcdefghijklmnopqrstuvwxyz0123456789''"

definition parse_download_target :: "string \<Rightarrow> string option" where
  "parse_download_target t0 =
     (let t = hd (split_char CHR ''?'' t0)
      in if \<not> starts_with [slash] t then None
         else let rest = drop 1 t; segment = hd (split_char slash rest)
              in if length segment \<noteq> fast_link_id_len then None
                 else if \<not> list_all (\<lambda>b. b \<in> set fast_link_id_alphabet) segment then None
                 else Some segment)"

section \<open>Previews and the host\<close>

datatype preview = Bot | Range

definition bot_ua_markers :: "string list" where
  "bot_ua_markers =
     [''slackbot'', ''slack-imgproxy'', ''discordbot'', ''telegrambot'', ''whatsapp'',
      ''facebookexternalhit'', ''facebot'', ''meta-externalagent'', ''twitterbot'',
      ''linkedinbot'', ''skypeuripreview'', ''mattermost-bot'', ''googlebot'', ''bingbot'',
      ''applebot'', ''embedly'', ''iframely'', ''redditbot'', ''bitlybot'', ''pinterestbot'',
      ''vkshare'']"

text \<open>\<^verbatim>\<open>chars().filter(|c| !c.is_whitespace())\<close>: white space starts only at the start of a character.\<close>

function remove_ws :: "string \<Rightarrow> string" where
  "remove_ws [] = []"
| "remove_ws (c # cs) =
     (case first_strip ws_seqs (c # cs) of
        Some r \<Rightarrow> remove_ws r
      | None \<Rightarrow> c # remove_ws cs)"
  by pat_completeness auto

termination
proof (relation "measure length", goal_cases)
  case (3 c cs r)
  then obtain w where "w \<in> set ws_seqs" "c # cs = w @ r" using first_strip_Some by metis
  with ws_seqs_nonempty(1) have "length r < length (c # cs)" by (cases w) auto
  then show ?case by simp
qed simp_all

definition preview_verdict :: "request_head \<Rightarrow> preview option" where
  "preview_verdict h =
     (let bot = (case header h ''user-agent'' of
                   Some ua \<Rightarrow> list_ex (\<lambda>m. contains_str m (to_ascii_lowercase ua)) bot_ua_markers
                 | None \<Rightarrow> False)
      in if bot then Some Bot
         else case header h ''range'' of
           Some range' \<Rightarrow>
             if to_ascii_lowercase (remove_ws (trim range')) \<noteq> ''bytes=0-'' then Some Range else None
         | None \<Rightarrow> None)"

definition rsplit_once :: "char \<Rightarrow> string \<Rightarrow> (string \<times> string) option" where
  "rsplit_once c s = map_option (\<lambda>(a, b). (rev b, rev a)) (split_once c (rev s))"

definition host_matches :: "string \<Rightarrow> string \<Rightarrow> bool" where
  "host_matches host_header configured =
     (let host = (case rsplit_once CHR '':'' host_header of
                    Some (before, after) \<Rightarrow>
                      if list_all is_ascii_digit after then before else host_header
                  | None \<Rightarrow> host_header);
          host = to_ascii_lowercase host;
          host = (case strip_suffix ''.'' host of Some r \<Rightarrow> r | None \<Rightarrow> host)
      in host = configured)"

section \<open>Head length\<close>

lemma find_str_append: "find_str p s = Some i \<Longrightarrow> find_str p (s @ t) = Some i"
proof (induction p s arbitrary: i rule: find_str.induct)
  case (1 p)
  then show ?case by (cases t) (auto simp: starts_with_def split: if_splits)
next
  case (2 p c cs)
  show ?case
  proof (cases "starts_with p (c # cs)")
    case True
    then obtain r where "c # cs = p @ r" by (auto simp: starts_with_iff)
    then have "(c # cs) @ t = p @ r @ t" by simp
    then have "starts_with p ((c # cs) @ t)" unfolding starts_with_iff by blast
    with True 2 show ?thesis by simp
  next
    case False
    with 2 obtain j where j: "find_str p cs = Some j" "i = Suc j" by auto
    have "\<not> starts_with p (c # cs @ t)"
    proof
      assume "starts_with p (c # cs @ t)"
      then obtain r where r: "c # cs @ t = p @ r" by (auto simp: starts_with_iff)
      have "length p \<le> length (c # cs)"
        using find_str_Some [OF j(1)] by simp
      then have "p = take (length p) (c # cs)"
        using r by (metis append_Cons append_eq_append_conv_if)
      then have "starts_with p (c # cs)" by (metis append_take_drop_id starts_with_iff)
      with False show False ..
    qed
    with 2(1) [OF False j(1)] j show ?thesis by simp
  qed
qed

text \<open>
  C25. The head found in a growing buffer is the shortest prefix that ends in an empty line,
  and reading more bytes never changes it.
\<close>

theorem head_len_least:
  assumes "head_len buf = Some n"
  shows "n \<le> length buf \<and> ends_with (crlf @ crlf) (take n buf) \<and>
    (\<forall>m<n. \<not> ends_with (crlf @ crlf) (take m buf)) \<and> head_len (buf @ later) = Some n"
proof -
  obtain i where i: "find_str (crlf @ crlf) buf = Some i" "n = i + 4"
    using assms by (auto simp: head_len_def)
  from find_str_Some [OF i(1)] obtain r where r: "i + 4 \<le> length buf" "drop i buf = (crlf @ crlf) @ r"
    by auto
  have split: "buf = take i buf @ (crlf @ crlf) @ r" using r(2) by (metis append_take_drop_id)
  have "length (take i buf) = i" using r(1) by simp
  then have "take n (take i buf @ (crlf @ crlf) @ r) = take i buf @ crlf @ crlf"
    unfolding i(2) by simp
  then have "take n buf = take i buf @ crlf @ crlf" unfolding split [symmetric] .
  then have "ends_with (crlf @ crlf) (take n buf)" by (auto simp: ends_with_iff)
  moreover have "\<not> ends_with (crlf @ crlf) (take m buf)" if "m < n" for m
  proof
    assume "ends_with (crlf @ crlf) (take m buf)"
    then obtain q where q: "take m buf = q @ crlf @ crlf" by (auto simp: ends_with_iff)
    then have m: "m = length q + 4" "m \<le> length buf"
      using that r(1) i(2) by (auto dest: arg_cong [of _ _ length] simp: min_def split: if_splits)
    have "buf = (q @ crlf @ crlf) @ drop m buf" using q by (metis append_take_drop_id)
    then have "drop (length q) buf = (crlf @ crlf) @ drop m buf"
      by (metis append.assoc append_eq_conv_conj)
    then have "starts_with (crlf @ crlf) (drop (length q) buf)" unfolding starts_with_iff by blast
    with find_str_least [OF i(1), of "length q"] m that i(2) show False by simp
  qed
  moreover have "head_len (buf @ later) = Some n"
    using find_str_append [OF i(1)] i(2) by (simp add: head_len_def)
  ultimately show ?thesis using r(1) i(2) by simp
qed

theorem head_len_least_witness:
  "head_len (''GET'' @ crlf @ crlf @ ''body'') = Some 7 \<and> head_len ((''GET'' @ crlf @ crlf @ ''body'') @ crlf @ crlf) = Some 7"
proof -
  have "head_len (''GET'' @ crlf @ crlf @ ''body'') = Some 7" by code_simp
  with head_len_least [OF this, of "crlf @ crlf"] show ?thesis by blast
qed

section \<open>Framing decision\<close>

lemma header_of_count:
  "header_count h name = 0 \<longleftrightarrow> header h name = None"
  by (auto simp: header_count_def header_def filter_empty_conv find_None_iff)

text \<open>
  C26. An upload body is framed in one way or refused: a request is accepted as chunked only
  with exactly one \<^verbatim>\<open>Transfer-Encoding\<close> header, which says chunked, and no \<^verbatim>\<open>Content-Length\<close>;
  it is accepted with a length only with exactly one \<^verbatim>\<open>Content-Length\<close>, a decimal number that
  fits 64 bits, and no \<^verbatim>\<open>Transfer-Encoding\<close>. Both headers, or one of them twice, give 400, and
  neither gives 411.
\<close>

theorem upload_framing_exclusive:
  "(upload_framing h = Inr Chunked \<longleftrightarrow>
      header_count h ''transfer-encoding'' = 1 \<and> header_count h ''content-length'' = 0 \<and>
      (\<exists>v. header h ''transfer-encoding'' = Some v \<and> CHR '','' \<notin> set v \<and>
           to_ascii_lowercase (trim v) = ''chunked'')) \<and>
   (upload_framing h = Inr (ContentLength n) \<longleftrightarrow>
      header_count h ''transfer-encoding'' = 0 \<and> header_count h ''content-length'' = 1 \<and>
      (\<exists>v. header h ''content-length'' = Some v \<and> v \<noteq> [] \<and> length v \<le> 20 \<and>
           list_all is_ascii_digit v \<and> n = dec_val v \<and> n \<le> u64_max)) \<and>
   (1 < header_count h ''transfer-encoding'' \<or> 1 < header_count h ''content-length'' \<or>
    (0 < header_count h ''transfer-encoding'' \<and> 0 < header_count h ''content-length'') \<longrightarrow>
      upload_framing h = Inl 400) \<and>
   (header_count h ''transfer-encoding'' = 0 \<and> header_count h ''content-length'' = 0 \<longrightarrow>
      upload_framing h = Inl 411)"
proof -
  let ?te = "header_count h ''transfer-encoding''" and ?cl = "header_count h ''content-length''"
  have te: "\<exists>v. header h ''transfer-encoding'' = Some v" if "0 < ?te"
    using that header_of_count [of h "''transfer-encoding''"] by auto
  have cl: "\<exists>v. header h ''content-length'' = Some v" if "0 < ?cl"
    using that header_of_count [of h "''content-length''"] by auto
  have codings: "length (map f (split_char CHR '','' v)) = 1 \<and> map f (split_char CHR '','' v) ! 0 = x
      \<longleftrightarrow> CHR '','' \<notin> set v \<and> f v = x" for f :: "string \<Rightarrow> string" and v x
    using split_char_single [of "CHR '',''" v]
    by (auto simp: length_split_char count_list_0_iff)
  have digits: "parse_u64 v = (if dec_val v \<le> u64_max then Some (dec_val v) else None)"
    if "v \<noteq> []" "list_all is_ascii_digit v" for v
    using that is_ascii_digit_not_plus by (cases v) (auto simp: parse_unsigned_def Let_def)
  consider "?te = 0" "?cl = 0" | "?te = 0" "?cl = 1" | "?te = 1" "?cl = 0" | "1 < ?te \<or> 1 < ?cl \<or> 0 < ?te \<and> 0 < ?cl"
    by linarith
  then show ?thesis
  proof cases
    case 1
    then show ?thesis by (simp add: upload_framing_def Let_def)
  next
    case 2
    with cl obtain v where v: "header h ''content-length'' = Some v" by auto
    show ?thesis using 2 v digits [of v] by (auto simp: upload_framing_def Let_def)
  next
    case 3
    with te obtain v where v: "header h ''transfer-encoding'' = Some v" by auto
    show ?thesis using 3 v codings [of "\<lambda>c. to_ascii_lowercase (trim c)" v "''chunked''"]
      by (auto simp: upload_framing_def Let_def)
  next
    case 4
    then have "upload_framing h = Inl 400" by (auto simp: upload_framing_def Let_def)
    with 4 show ?thesis by auto
  qed
qed

theorem upload_framing_exclusive_witness:
  "upload_framing \<lparr>meth = ''PUT'', target = ''/'', headers =
     [(''Content-Length'', ''5''), (''content-length'', ''6'')]\<rparr> = Inl 400"
  by (rule upload_framing_exclusive [THEN conjunct2, THEN conjunct2, THEN conjunct1, THEN mp])
    code_simp

section \<open>Targets\<close>

lemma hex_value_upper: "n < 16 \<Longrightarrow> hex_value (hex_upper n) = Some n"
  by (auto simp: hex_value_def Let_def byte_of_hex_upper)

lemma percent_decode_encode: "percent_decode (encode_path_segment s) = Some s"
proof (induction s)
  case (Cons c s)
  have "byte_of c div 16 < 16" using byte_of_less [of c] by (simp add: less_mult_imp_div_less)
  moreover have "byte_of c div 16 * 16 + byte_of c mod 16 = byte_of c" by simp
  ultimately show ?case
    using Cons unreserved_printable [of c] by (simp add: hex_value_upper)
qed simp

lemma encode_path_segment_Nil_iff [simp]: "encode_path_segment s = [] \<longleftrightarrow> s = []"
  by (cases s) auto

lemma encode_path_segment_chars:
  "c \<in> set (encode_path_segment s) \<Longrightarrow> c \<noteq> CHR ''?'' \<and> c \<noteq> CHR ''#'' \<and> c \<noteq> slash"
proof (induction s)
  case (Cons x s)
  have hex: "hex_upper n \<noteq> CHR ''?'' \<and> hex_upper n \<noteq> CHR ''#'' \<and> hex_upper n \<noteq> slash" if "n < 16" for n
  proof -
    have "byte_of (hex_upper n) \<notin> {63, 35, 47}" using that by (auto simp: byte_of_hex_upper)
    then show ?thesis by (auto simp: byte_of_def)
  qed
  have "byte_of x div 16 < 16" using byte_of_less [of x] by (simp add: less_mult_imp_div_less)
  moreover have "unreserved x \<Longrightarrow> x \<noteq> CHR ''?'' \<and> x \<noteq> CHR ''#'' \<and> x \<noteq> slash"
    by (auto simp: unreserved_def is_ascii_alphanumeric_def is_ascii_digit_def
      is_ascii_upper_def is_ascii_lower_def byte_of_def)
  ultimately show ?case
    using Cons hex [of "byte_of x div 16"] hex [of "byte_of x mod 16"] by (auto split: if_splits)
qed simp

text \<open>
  C27. Upload names survive the URL: for every name the relay accepts, the target made by
  percent encoding it is parsed back to that name, and no target ever gives a name that the
  filename rules refuse.
\<close>

theorem upload_target_roundtrip:
  "(validate_filename name = Inr () \<and> from_utf8 name = Some name \<longrightarrow>
      parse_upload_target (slash # encode_path_segment name) = Inr name) \<and>
   (\<forall>t. parse_upload_target t = Inr name \<longrightarrow> validate_filename name = Inr ())"
proof (intro conjI impI allI)
  assume v: "validate_filename name = Inr () \<and> from_utf8 name = Some name"
  then have "name \<noteq> []" by (auto simp: validate_filename_def)
  moreover have "c \<notin> set (encode_path_segment name)" if "c \<in> {CHR ''?'', CHR ''#'', slash}" for c
    using encode_path_segment_chars [of c name] that by auto
  ultimately show "parse_upload_target (slash # encode_path_segment name) = Inr name"
    using v by (simp add: parse_upload_target_def starts_with_def percent_decode_encode)
next
  fix t assume "parse_upload_target t = Inr name"
  moreover have "validate_filename default_upload_filename = Inr ()" by code_simp
  ultimately show "validate_filename name = Inr ()"
    by (auto simp: parse_upload_target_def Let_def rbind_Inr_iff map_err_Inr_iff split: if_splits)
qed

theorem upload_target_roundtrip_witness:
  "parse_upload_target (slash # encode_path_segment ''a b.tar'') = Inr ''a b.tar''"
  by (rule upload_target_roundtrip [THEN conjunct1, THEN mp]) code_simp

end
