(* ===== verification/Fast_Link_Response.thy ===== *)
theory Fast_Link_Response
  imports Fast_Link_Request
begin

text \<open>
  The response builders of \<^verbatim>\<open>src/src/fast_link/response.rs\<close> and the generation of download ids
  in \<^verbatim>\<open>src/src/fast_link/mod.rs\<close>. The random source of the id generator is the list of the
  bytes it hands out; a list that runs out is a source that fails. The closing of the socket
  (\<^verbatim>\<open>linger_close\<close>, \<^verbatim>\<open>abort_close\<close>) is input and output and is not modelled.
\<close>

section \<open>Responses\<close>

definition continue_response :: string where
  "continue_response = ''HTTP/1.1 100 Continue'' @ crlf @ crlf"

definition last_chunk_bytes :: string where
  "last_chunk_bytes = ''0'' @ crlf @ crlf"

definition reason_phrase :: "nat \<Rightarrow> string" where
  "reason_phrase status =
     (if status = 200 then ''OK''
      else if status = 308 then ''Permanent Redirect''
      else if status = 400 then ''Bad Request''
      else if status = 401 then ''Unauthorized''
      else if status = 403 then ''Forbidden''
      else if status = 404 then ''Not Found''
      else if status = 405 then ''Method Not Allowed''
      else if status = 409 then ''Conflict''
      else if status = 411 then ''Length Required''
      else if status = 416 then ''Range Not Satisfiable''
      else if status = 417 then ''Expectation Failed''
      else if status = 431 then ''Request Header Fields Too Large''
      else if status = 501 then ''Not Implemented''
      else if status = 503 then ''Service Unavailable''
      else ''Error'')"

definition simple_response :: "nat \<Rightarrow> string \<Rightarrow> string \<Rightarrow> (string \<times> string) list \<Rightarrow> string" where
  "simple_response status content_type body extra =
     ''HTTP/1.1 '' @ show_nat status @ '' '' @ reason_phrase status @ crlf
     @ ''Content-Type: '' @ content_type @ crlf
     @ ''Content-Length: '' @ show_nat (length body) @ crlf
     @ ''Cache-Control: no-store'' @ crlf
     @ ''X-Content-Type-Options: nosniff'' @ crlf
     @ concat (map (\<lambda>(name, v). name @ '': '' @ v @ crlf) extra)
     @ ''Connection: close'' @ crlf @ crlf @ body"

definition upload_head :: string where
  "upload_head =
     ''HTTP/1.1 200 OK'' @ crlf
     @ ''Content-Type: text/plain; charset=utf-8'' @ crlf
     @ ''Cache-Control: no-store'' @ crlf
     @ ''X-Content-Type-Options: nosniff'' @ crlf
     @ ''Transfer-Encoding: chunked'' @ crlf
     @ ''Connection: close'' @ crlf @ crlf"

definition download_head :: "string \<Rightarrow> nat option \<Rightarrow> filename_error + string" where
  "download_head filename len =
     rbind (content_disposition filename) (\<lambda>disposition.
       Inr (''HTTP/1.1 200 OK'' @ crlf
         @ ''Content-Type: application/octet-stream'' @ crlf
         @ ''Content-Disposition: '' @ disposition @ crlf
         @ (case len of
              Some n \<Rightarrow> ''Content-Length: '' @ show_nat n @ crlf
            | None \<Rightarrow> ''Transfer-Encoding: chunked'' @ crlf)
         @ ''Cache-Control: no-store'' @ crlf
         @ ''Referrer-Policy: no-referrer'' @ crlf
         @ ''X-Content-Type-Options: nosniff'' @ crlf
         @ ''X-Robots-Tag: noindex, nofollow'' @ crlf
         @ ''Accept-Ranges: none'' @ crlf
         @ ''Connection: close'' @ crlf @ crlf))"

text \<open>\<^verbatim>\<open>format!("{:x}", n)\<close>.\<close>

fun hex_digits :: "nat \<Rightarrow> nat list" where
  "hex_digits n = (if n < 16 then [n] else hex_digits (n div 16) @ [n mod 16])"

declare hex_digits.simps [simp del]

definition hex_lower :: "nat \<Rightarrow> char" where
  "hex_lower n = char_of (if n \<le> 9 then 48 + n else 87 + n)"

definition show_hex :: "nat \<Rightarrow> string" where
  "show_hex n = map hex_lower (hex_digits n)"

definition chunk :: "string \<Rightarrow> string" where
  "chunk payload = show_hex (length payload) @ crlf @ payload @ crlf"

section \<open>Download ids\<close>



section \<open>Chunks frame\<close>

lemma hex_digits_less: "d \<in> set (hex_digits n) \<Longrightarrow> d < 16"
proof (induction n rule: hex_digits.induct)
  case (1 n)
  then show ?case by (subst (asm) hex_digits.simps) (auto split: if_splits)
qed

lemma byte_of_hex_lower: "n < 16 \<Longrightarrow> byte_of (hex_lower n) = (if n \<le> 9 then 48 + n else 87 + n)"
  by (simp add: hex_lower_def)

lemma hex_digit_lower: "n < 16 \<Longrightarrow> hex_digit (hex_lower n) = Some n"
  by (auto simp: hex_digit_def Let_def byte_of_hex_lower)

lemma hex_fold_show_hex: "hex_fold 0 (show_hex n) = n"
proof (induction n rule: hex_digits.induct)
  case (1 n)
  show ?case
  proof (cases "n < 16")
    case True
    then show ?thesis
      by (simp add: show_hex_def hex_digits.simps [of n] hex_fold_def hex_digit_lower)
  next
    case False
    then have "hex_fold 0 (show_hex n) = hex_fold 0 (show_hex (n div 16)) * 16 + n mod 16"
      by (simp add: show_hex_def hex_digits.simps [of n] hex_fold_def hex_digit_lower)
    also have "\<dots> = n" using 1 False by simp
    finally show ?thesis .
  qed
qed

lemma length_show_hex: "0 < k \<Longrightarrow> n < 16 ^ k \<Longrightarrow> length (show_hex n) \<le> k"
proof (induction n arbitrary: k rule: hex_digits.induct)
  case (1 n)
  show ?case
  proof (cases "n < 16")
    case True
    then show ?thesis using 1 by (simp add: show_hex_def hex_digits.simps [of n])
  next
    case False
    with 1(3) have k: "1 < k" by (cases k rule: nat.exhaust; cases "k - 1") auto
    then obtain j where j: "k = Suc j" "0 < j" by (cases k) auto
    then have "n div 16 < 16 ^ j" using 1(3) by (simp add: less_mult_imp_div_less mult.commute)
    with 1(1) [OF False j(2)] False j show ?thesis
      by (simp add: show_hex_def hex_digits.simps [of n])
  qed
qed

lemma show_hex_size_line:
  assumes "n \<le> u64_max" shows "size_line n (show_hex n @ [cr])"
proof -
  have "n < 16 ^ 16" using assms by (simp add: u64_max_def)
  then have "length (show_hex n) \<le> 16" by (intro length_show_hex) auto
  moreover have "list_all is_hex (show_hex n)"
    using hex_digits_less by (auto simp: show_hex_def list_all_iff is_hex_def hex_digit_lower)
  moreover have "show_hex n \<noteq> []" by (simp add: show_hex_def hex_digits.simps [of n])
  ultimately show ?thesis
    unfolding size_line_def
    by (intro exI [of _ "show_hex n"] exI [of _ "[]"])
      (simp add: hex_fold_show_hex max_chunk_line_def)
qed

lemma chunks_chunked_body:
  "list_all (\<lambda>p. p \<noteq> [] \<and> length p \<le> u64_max) ps \<Longrightarrow>
     chunked_body (concat (map chunk ps) @ last_chunk_bytes)"
proof (induction ps)
  case Nil
  have "show_hex 0 = ''0''" by (simp add: show_hex_def hex_digits.simps [of 0] hex_lower_def) code_simp
  then have "size_line 0 (''0'' @ [cr])" using show_hex_size_line [of 0] by simp
  from last_chunk [OF this] show ?case by (simp add: last_chunk_bytes_def)
next
  case (Cons p ps)
  then have "size_line (length p) (show_hex (length p) @ [cr])" "0 < length p"
    by (auto intro: show_hex_size_line)
  from data_chunk [OF this refl Cons.IH] Cons.prems show ?case by (simp add: chunk_def)
qed

text \<open>
  C28. What the relay writes it can read: any sequence of non-empty payloads sent through
  \<^verbatim>\<open>chunk\<close> and ended by the last chunk is accepted by the chunked framer of uploads, whole and
  with nothing held back, whatever bytes follow it on the connection.
\<close>

theorem chunk_framer_roundtrip:
  assumes "list_all (\<lambda>p. p \<noteq> [] \<and> length p \<le> u64_max) ps"
  shows "\<exists>f' p. framer_feed (framer_new Chunked)
      ((concat (map chunk ps) @ last_chunk_bytes) @ later) = (f', Inr p) \<and>
      finished p \<and> forward p = length (concat (map chunk ps) @ last_chunk_bytes)"
proof -
  let ?body = "concat (map chunk ps) @ last_chunk_bytes"
  have "lang (SizeDigits 0 0 0) ?body"
    using chunks_chunked_body [OF assms] lang_chunked_body by blast
  then obtain st' p where "run_bytes (SizeDigits 0 0 0) 0 (?body @ later) = (st', Inr p)"
    "finished p" "forward p = length ?body"
    using run_bytes_lang [of "SizeDigits 0 0 0" 0 "?body @ later" ?body] by auto
  then show ?thesis
    by (simp add: framer_new_def framer_feed_def framer_is_done_def feed_chunked_run)
qed

theorem chunk_framer_roundtrip_witness:
  "\<exists>f' p. framer_feed (framer_new Chunked)
      ((concat (map chunk [''hello'', ''you'']) @ last_chunk_bytes) @ ''GET'') = (f', Inr p) \<and> finished p"
  using chunk_framer_roundtrip [of "[''hello'', ''you'']" "''GET''"] by (auto simp: u64_max_def)

section \<open>Ids are well formed and unbiased\<close>









end
