(* ===== verification/Adaptive_Nat.thy ===== *)
theory Adaptive_Nat
  imports Rust_Text
begin

text \<open>
  \<^verbatim>\<open>src/src/adaptive_nat.rs\<close>: from the two NAT profiles of a pair of peers to the plan that
  says whether to punch or to relay, in which order to try candidates and who sprays. The
  wire types are those of \<^verbatim>\<open>src/src/shared.rs\<close> that the module reads.
\<close>

section \<open>Wire types\<close>

datatype udp_candidate_kind = UReflexive | URouterMapped | UPredicted | ULocal

datatype udp_nat_mapping = MappingUnknown | Eim | MappingSymmetric

datatype udp_nat_filtering = FilteringUnknown | Eif | AddressDependent

datatype udp_filter_probe = AddressDependentOrOpen | AddressAndPortDependent

record udp_nat_profile =
  mapping :: udp_nat_mapping
  wire_filtering :: udp_nat_filtering
  wire_port_preserved :: "bool option"
  wire_observations :: nat
  wire_filtering_probe :: "udp_filter_probe option"

text \<open>
  Of an offer the module reads the number of candidates, the kinds of the typed ones and the
  chosen STUN server; of a summary all the fields below.
\<close>

record udp_candidate_offer =
  candidates :: "string list"
  offer_selected_stun :: "string option"
  typed_candidates :: "udp_candidate_kind list"

record udp_test_peer_summary =
  nat_class :: string
  summary_local_udp :: string
  reflexive :: "string list"
  summary_candidate_kinds :: "udp_candidate_kind list"
  summary_selected_stun :: "string option"
  summary_candidate_count :: nat
  summary_port_preserved :: "bool option"

datatype udp_adaptive_mode = WDirectFirst | WDirectWithRetry | WRelayFirst | WRelayOnly

datatype udp_adaptive_candidate_kind = WReflexive | WLocal | WRouterMapped | WPredicted | WRelayFallback

record udp_adaptive_plan =
  w_mode :: udp_adaptive_mode
  w_candidate_order :: "udp_adaptive_candidate_kind list"
  w_retry_budget :: nat
  w_read_timeout_ms :: nat
  w_send_delay_ms :: nat
  w_reason_code :: "string option"
  w_spray_role :: "string option"

section \<open>Classes, kinds and modes\<close>

datatype nat_mapping_class = Open | Cone | Symmetric | Blocked | Inconclusive

definition from_label :: "string \<Rightarrow> nat_mapping_class" where
  "from_label label =
     (let normalized = to_ascii_lowercase (trim label)
      in if contains_str ''blocked'' normalized then Blocked
         else if contains_str ''inconclusive'' normalized then Inconclusive
         else if contains_str ''symmetric'' normalized then Symmetric
         else if contains_str ''cone'' normalized then Cone
         else if contains_str ''open'' normalized then Open
         else Inconclusive)"

definition direct_friendly :: "nat_mapping_class \<Rightarrow> bool" where
  "direct_friendly c = (c = Open \<or> c = Cone)"

datatype nat_candidate_kind = Reflexive | Local | RouterMapped | Predicted | RelayFallback

fun from_udp_kind :: "udp_candidate_kind \<Rightarrow> nat_candidate_kind" where
  "from_udp_kind UReflexive = Reflexive"
| "from_udp_kind URouterMapped = RouterMapped"
| "from_udp_kind UPredicted = Predicted"
| "from_udp_kind ULocal = Local"

fun kind_to_wire :: "nat_candidate_kind \<Rightarrow> udp_adaptive_candidate_kind" where
  "kind_to_wire Reflexive = WReflexive"
| "kind_to_wire Local = WLocal"
| "kind_to_wire RouterMapped = WRouterMapped"
| "kind_to_wire Predicted = WPredicted"
| "kind_to_wire RelayFallback = WRelayFallback"

fun kind_as_str :: "nat_candidate_kind \<Rightarrow> string" where
  "kind_as_str Reflexive = ''reflexive''"
| "kind_as_str Local = ''local''"
| "kind_as_str RouterMapped = ''router-mapped''"
| "kind_as_str Predicted = ''predicted''"
| "kind_as_str RelayFallback = ''relay''"

datatype nat_plan_mode = DirectFirst | DirectWithRetry | RelayFirst | RelayOnly

fun mode_as_str :: "nat_plan_mode \<Rightarrow> string" where
  "mode_as_str DirectFirst = ''direct-first''"
| "mode_as_str DirectWithRetry = ''direct-with-retry''"
| "mode_as_str RelayFirst = ''relay-first''"
| "mode_as_str RelayOnly = ''relay-only''"

fun mode_to_wire :: "nat_plan_mode \<Rightarrow> udp_adaptive_mode" where
  "mode_to_wire DirectFirst = WDirectFirst"
| "mode_to_wire DirectWithRetry = WDirectWithRetry"
| "mode_to_wire RelayFirst = WRelayFirst"
| "mode_to_wire RelayOnly = WRelayOnly"

section \<open>Profiles\<close>

record nat_profile =
  mapping_class :: nat_mapping_class
  filtering :: udp_nat_filtering
  filtering_probe :: "udp_filter_probe option"
  observations :: nat
  local_udp :: string
  selected_stun :: "string option"
  candidate_kinds :: "nat_candidate_kind list"
  candidate_count :: nat
  reflexive_count :: nat
  port_preserved :: "bool option"

definition profile_from_summary :: "udp_test_peer_summary \<Rightarrow> nat_profile" where
  "profile_from_summary s =
     \<lparr>mapping_class = from_label (nat_class s),
      filtering = FilteringUnknown,
      filtering_probe = None,
      observations = (if summary_selected_stun s \<noteq> None then 1 else 0),
      local_udp = summary_local_udp s,
      selected_stun = summary_selected_stun s,
      candidate_kinds = map from_udp_kind (summary_candidate_kinds s),
      candidate_count = summary_candidate_count s,
      reflexive_count = length (reflexive s),
      port_preserved = summary_port_preserved s\<rparr>"

definition profile_from_wire :: "udp_nat_profile \<Rightarrow> udp_candidate_offer \<Rightarrow> nat_profile" where
  "profile_from_wire p offer =
     (let refl = length (filter (\<lambda>k. k = UReflexive) (typed_candidates offer));
          router_mapped = list_ex (\<lambda>k. k = URouterMapped) (typed_candidates offer);
          class' = (case mapping p of
                      Eim \<Rightarrow> Cone
                    | MappingSymmetric \<Rightarrow> Symmetric
                    | MappingUnknown \<Rightarrow>
                        if wire_observations p = 0 \<and> refl = 0 \<and> \<not> router_mapped
                        then Blocked else Inconclusive)
      in \<lparr>mapping_class = class',
          filtering = wire_filtering p,
          filtering_probe = wire_filtering_probe p,
          observations = wire_observations p,
          local_udp = [],
          selected_stun = offer_selected_stun offer,
          candidate_kinds = map from_udp_kind (typed_candidates offer),
          candidate_count = length (candidates offer),
          reflexive_count = refl,
          port_preserved = wire_port_preserved p\<rparr>)"

definition has_candidate_kind :: "nat_profile \<Rightarrow> nat_candidate_kind \<Rightarrow> bool" where
  "has_candidate_kind p k = (k \<in> set (candidate_kinds p))"

definition port_restricted :: "nat_profile \<Rightarrow> bool option" where
  "port_restricted p =
     (case filtering_probe p of
        Some AddressAndPortDependent \<Rightarrow> Some True
      | Some AddressDependentOrOpen \<Rightarrow> Some False
      | None \<Rightarrow> (case filtering p of AddressDependent \<Rightarrow> Some True | _ \<Rightarrow> None))"

section \<open>The plan\<close>

record nat_plan =
  mode :: nat_plan_mode
  candidate_order :: "nat_candidate_kind list"
  retry_budget :: nat
  read_timeout_ms :: nat
  send_delay_ms :: nat
  reason_code :: string
  spray_role :: "string option"
  reasons :: "string list"

definition plan_summary :: "nat_plan \<Rightarrow> string" where
  "plan_summary p =
     mode_as_str (mode p) @ '' (retry '' @ show_nat (retry_budget p) @ '', read ''
     @ show_nat (read_timeout_ms p) @ ''ms, delay '' @ show_nat (send_delay_ms p)
     @ ''ms, order '' @ join '' -> '' (map kind_as_str (candidate_order p)) @ '')''"

definition plan_summary_with_reason :: "nat_plan \<Rightarrow> string" where
  "plan_summary_with_reason p = plan_summary p @ '' [reason='' @ reason_code p @ '']''"

definition plan_to_wire :: "nat_plan \<Rightarrow> udp_adaptive_plan" where
  "plan_to_wire p =
     \<lparr>w_mode = mode_to_wire (mode p),
      w_candidate_order = map kind_to_wire (candidate_order p),
      w_retry_budget = retry_budget p,
      w_read_timeout_ms = read_timeout_ms p,
      w_send_delay_ms = send_delay_ms p,
      w_reason_code = Some (reason_code p),
      w_spray_role = spray_role p\<rparr>"

definition spray_role_easy :: string where "spray_role_easy = ''easy''"
definition spray_role_hard :: string where "spray_role_hard = ''hard''"

definition spray_role_for :: "nat_profile \<Rightarrow> string \<Rightarrow> string option" where
  "spray_role_for loc code =
     (if code \<noteq> ''peer-port-restricted'' then None
      else Some (if mapping_class loc = Symmetric then spray_role_hard else spray_role_easy))"

text \<open>
  Each arm of \<^verbatim>\<open>select_mode\<close> returns a mode, a code and a sentence; the sentence goes with the
  code, so the arms are split in the decision and the sentences.
\<close>

definition mode_verdict :: "nat_profile \<Rightarrow> nat_profile \<Rightarrow> nat_plan_mode \<times> string" where
  "mode_verdict loc peer =
     (if candidate_count loc = 0 \<and> candidate_count peer = 0 then (RelayOnly, ''no-candidates'')
      else if direct_friendly (mapping_class loc) \<and> direct_friendly (mapping_class peer) then
        (DirectFirst, ''both-direct-friendly'')
      else if mapping_class loc = Blocked \<or> mapping_class peer = Blocked then
        (RelayFirst, ''peer-blocked'')
      else if mapping_class loc = Symmetric \<or> mapping_class peer = Symmetric then
        (let both_symmetric = (mapping_class loc = Symmetric \<and> mapping_class peer = Symmetric);
             other = (if mapping_class loc = Symmetric then peer else loc);
             verdict = (if \<not> both_symmetric then port_restricted other else None)
         in case verdict of
              Some True \<Rightarrow> (RelayFirst, ''peer-port-restricted'')
            | Some False \<Rightarrow> (DirectWithRetry, ''symmetric-vs-open-filter'')
            | None \<Rightarrow>
                if both_symmetric \<and>
                   (port_restricted loc = Some True \<or> port_restricted peer = Some True) then
                  (RelayFirst, ''symmetric-strict-filtering'')
                else if port_preserved loc = Some True \<or> port_preserved peer = Some True \<or>
                        selected_stun loc \<noteq> None \<or> selected_stun peer \<noteq> None then
                  (DirectWithRetry, ''symmetric-escape'')
                else (RelayFirst, ''symmetric-relay''))
      else if mapping_class loc = Inconclusive \<or> mapping_class peer = Inconclusive then
        (DirectWithRetry, ''inconclusive'')
      else (DirectWithRetry, ''default''))"

definition mode_sentence :: "string \<Rightarrow> string" where
  "mode_sentence code =
     (if code = ''no-candidates'' then ''no usable direct candidates were reported by either peer''
      else if code = ''both-direct-friendly'' then ''both peers look endpoint-independent or public''
      else if code = ''peer-blocked'' then
        ''one peer reported no STUN reachability, so relay stays first-choice''
      else if code = ''peer-port-restricted'' then
        ''the non-symmetric side filters per address+port, which a symmetric '' @
        ''peer'' @ [CHR 0x27] @ ''s unpredictable source port cannot pass; relay first''
      else if code = ''symmetric-vs-open-filter'' then
        ''the non-symmetric side accepts an unsolicited port from a known '' @
        ''address, which is the cell a symmetric peer can still punch''
      else if code = ''symmetric-strict-filtering'' then
        ''both peers are symmetric and one filters per address/port; relay first''
      else if code = ''symmetric-escape'' then
        ''direct path looks plausible but one peer needs extra retry room''
      else if code = ''symmetric-relay'' then
        ''a symmetric peer with no escape hatch keeps relay first-choice''
      else if code = ''inconclusive'' then
        ''mapping could not be classified with confidence; direct with retry''
      else ''no rule matched; conservative direct with retry'')"

definition select_mode :: "nat_profile \<Rightarrow> nat_profile \<Rightarrow> nat_plan_mode \<times> string \<times> string" where
  "select_mode loc peer =
     (let (m, code) = mode_verdict loc peer in (m, code, mode_sentence code))"

definition direct_candidates :: "nat_profile \<Rightarrow> nat_profile \<Rightarrow> nat_candidate_kind list" where
  "direct_candidates loc peer =
     (let hard = {Symmetric, Blocked, Inconclusive}
      in if candidate_kinds loc \<noteq> [] \<or> candidate_kinds peer \<noteq> []
         then filter (\<lambda>k. has_candidate_kind loc k \<or> has_candidate_kind peer k)
                [Local, Reflexive, RouterMapped, Predicted]
         else (if local_udp loc \<noteq> [] \<or> local_udp peer \<noteq> [] then [Local] else [])
              @ (if 0 < reflexive_count loc \<or> 0 < reflexive_count peer then [Reflexive] else [])
              @ (if mapping_class loc \<in> hard \<or> mapping_class peer \<in> hard \<or>
                    port_preserved loc = Some False \<or> port_preserved peer = Some False
                 then [Predicted] else []))"

text \<open>\<^verbatim>\<open>Vec::dedup\<close> removes consecutive repetitions: \<^const>\<open>remdups_adj\<close>.\<close>

definition candidate_order_for ::
  "nat_profile \<Rightarrow> nat_profile \<Rightarrow> nat_plan_mode \<Rightarrow> nat_candidate_kind list" where
  "candidate_order_for loc peer m =
     (let direct = remdups_adj (direct_candidates loc peer @ [RelayFallback])
      in case m of
           DirectFirst \<Rightarrow> direct
         | DirectWithRetry \<Rightarrow> direct
         | RelayFirst \<Rightarrow> RelayFallback # filter (\<lambda>k. k \<noteq> RelayFallback) direct
         | RelayOnly \<Rightarrow> [RelayFallback])"

definition plan_budgets :: "nat_plan_mode \<Rightarrow> nat \<times> nat \<times> nat" where
  "plan_budgets m =
     (case m of
        DirectFirst \<Rightarrow> (1, 750, 0)
      | DirectWithRetry \<Rightarrow> (2, 500, 25)
      | RelayFirst \<Rightarrow> (1, 250, 0)
      | RelayOnly \<Rightarrow> (0, 0, 0))"

definition plan_for_pair :: "nat_profile \<Rightarrow> nat_profile \<Rightarrow> nat_plan" where
  "plan_for_pair loc peer =
     (let (m, code, reason) = select_mode loc peer;
          order = candidate_order_for loc peer m;
          (retry, read, delay) = plan_budgets m
      in \<lparr>mode = m, candidate_order = order, retry_budget = retry, read_timeout_ms = read,
          send_delay_ms = delay, reason_code = code, spray_role = spray_role_for loc code,
          reasons = [reason]\<rparr>)"

definition plan_remedy :: "string \<Rightarrow> string option" where
  "plan_remedy code =
     (if code = ''peer-port-restricted'' then Some
        (''the endpoint-independent side filters per address+port, which a symmetric '' @
         ''peer'' @ [CHR 0x27] @ ''s unpredictable source port cannot pass. A port mapping on THAT side '' @
         ''(--upnp) or an operator-declared endpoint (--udp-candidate HOST:PORT) turns '' @
         ''its filter into a static forward and makes the pair punchable'')
      else if code = ''symmetric-strict-filtering'' then Some
        (''both peers are symmetric and one filters per address+port: no port '' @
         ''prediction lands on both sides at once. Give one side a stable endpoint '' @
         ''(--upnp, --udp-candidate, or a static port forward), or accept the relay'')
      else if code = ''peer-blocked'' then Some
        (''one side reported no STUN reachability at all, i.e. UDP egress is blocked '' @
         ''there. Run '' @ [CHR 0x60] @ ''bore test-udp'' @ [CHR 0x60] @ '' on both hosts; the blocked one says so'')
      else if code = ''no-candidates'' then Some
        (''neither side offered a usable direct candidate: check that --stun-server is '' @
         ''reachable, or declare an endpoint with --udp-candidate HOST:PORT'')
      else None)"

section \<open>Agreement of the two sides\<close>

lemma mode_verdict_sym: "mode_verdict a b = mode_verdict b a"
  unfolding mode_verdict_def Let_def
  by (cases "mapping_class a"; cases "mapping_class b")
    (simp_all add: direct_friendly_def conj_commute disj_commute disj_left_commute, auto)

lemma select_mode_sym: "select_mode a b = select_mode b a"
  by (simp add: select_mode_def mode_verdict_sym [of a b])

lemma plan_mode [simp]: "mode (plan_for_pair a b) = fst (mode_verdict a b)"
  and plan_reason_code [simp]: "reason_code (plan_for_pair a b) = snd (mode_verdict a b)"
  by (simp_all add: plan_for_pair_def select_mode_def plan_budgets_def split: prod.split nat_plan_mode.split)

lemma port_restricted_verdict:
  "snd (mode_verdict a b) = ''peer-port-restricted'' \<Longrightarrow>
     (mapping_class a = Symmetric \<and> mapping_class b \<noteq> Symmetric \<and> port_restricted b = Some True) \<or>
     (mapping_class b = Symmetric \<and> mapping_class a \<noteq> Symmetric \<and> port_restricted a = Some True)"
  by (auto simp: mode_verdict_def Let_def split: if_splits option.splits bool.splits)

lemma direct_candidates_sym: "direct_candidates a b = direct_candidates b a"
proof -
  have "(P a \<or> P b) = (P b \<or> P a)" "(P a \<or> P b \<or> Q a \<or> Q b) = (P b \<or> P a \<or> Q b \<or> Q a)"
    for P Q :: "nat_profile \<Rightarrow> bool"
    by blast+
  note this (1) [of "\<lambda>p. candidate_kinds p \<noteq> []"] this (1) [of "\<lambda>p. has_candidate_kind p k" for k]
    this (1) [of "\<lambda>p. local_udp p \<noteq> []"] this (1) [of "\<lambda>p. 0 < reflexive_count p"]
    this (2) [of "\<lambda>p. mapping_class p \<in> {Symmetric, Blocked, Inconclusive}" "\<lambda>p. port_preserved p = Some False"]
  then show ?thesis unfolding direct_candidates_def Let_def by presburger
qed

lemma candidate_order_for_sym: "candidate_order_for a b m = candidate_order_for b a m"
  by (simp add: candidate_order_for_def direct_candidates_sym [of a b])

text \<open>
  C9. The broker's two plans of one pair agree: both sides get the same mode, the same order
  of candidates, the same budgets and the same reason; and when the escape by spraying
  applies, one side has the hard role and the other the easy one.
\<close>

theorem plans_of_a_pair_agree:
  fixes a b
  defines "p \<equiv> plan_for_pair a b" and "q \<equiv> plan_for_pair b a"
  shows "mode p = mode q \<and> candidate_order p = candidate_order q \<and>
    retry_budget p = retry_budget q \<and> read_timeout_ms p = read_timeout_ms q \<and>
    send_delay_ms p = send_delay_ms q \<and> reason_code p = reason_code q \<and> reasons p = reasons q \<and>
    (spray_role p = None \<longleftrightarrow> spray_role q = None) \<and>
    (\<forall>r. spray_role p = Some r \<longrightarrow>
       {spray_role p, spray_role q} = {Some spray_role_easy, Some spray_role_hard})"
proof -
  obtain m code reason where s: "select_mode a b = (m, code, reason)" by (cases "select_mode a b")
  then have s': "select_mode b a = (m, code, reason)" using select_mode_sym [of a b] by simp
  have "code = snd (mode_verdict a b)" using s by (auto simp: select_mode_def split: prod.splits)
  then have "(mapping_class a = Symmetric) \<noteq> (mapping_class b = Symmetric)" if "code = ''peer-port-restricted''"
    using port_restricted_verdict [of a b] that by auto
  then show ?thesis
    using s s' candidate_order_for_sym [of a b m]
    by (cases "plan_budgets m")
      (auto simp: p_def q_def plan_for_pair_def spray_role_for_def simp del: plan_mode plan_reason_code)
qed

theorem plans_of_a_pair_agree_witness:
  "\<exists>a b. mapping_class a = Symmetric \<and>
     {spray_role (plan_for_pair a b), spray_role (plan_for_pair b a)} =
       {Some spray_role_easy, Some spray_role_hard}"
proof -
  let ?b = "\<lparr>mapping_class = Cone, filtering = FilteringUnknown,
    filtering_probe = Some AddressAndPortDependent, observations = 2, local_udp = [],
    selected_stun = None, candidate_kinds = [Reflexive], candidate_count = 1, reflexive_count = 1,
    port_preserved = None\<rparr>"
  let ?a = "?b\<lparr>mapping_class := Symmetric\<rparr>"
  have "spray_role (plan_for_pair ?a ?b) = Some spray_role_hard"
    by (simp add: plan_for_pair_def select_mode_def mode_verdict_def direct_friendly_def Let_def
        port_restricted_def spray_role_for_def plan_budgets_def)
  with plans_of_a_pair_agree [of ?a ?b] show ?thesis
    by (intro exI [of _ ?a] exI [of _ ?b]) (simp del: plan_mode plan_reason_code)
qed

text \<open>
  C30. The relay is given up to only for lack of any candidate, and never for lack of
  metadata: the mode is relay-only exactly when neither side has a candidate, the side that
  decides a port-restricted verdict was measured, and a pair without a blocked side and
  without a symmetric one is tried directly first.
\<close>

theorem relay_is_justified:
  "(mode (plan_for_pair a b) = RelayOnly \<longleftrightarrow> candidate_count a = 0 \<and> candidate_count b = 0) \<and>
   (reason_code (plan_for_pair a b) = ''peer-port-restricted'' \<longrightarrow>
      (mapping_class a = Symmetric \<and> mapping_class b \<noteq> Symmetric \<and> port_restricted b = Some True) \<or>
      (mapping_class b = Symmetric \<and> mapping_class a \<noteq> Symmetric \<and> port_restricted a = Some True)) \<and>
   (mode (plan_for_pair a b) = RelayFirst \<longrightarrow>
      Blocked \<in> {mapping_class a, mapping_class b} \<or> Symmetric \<in> {mapping_class a, mapping_class b})"
proof -
  have "fst (mode_verdict a b) = RelayOnly \<longleftrightarrow> candidate_count a = 0 \<and> candidate_count b = 0"
    by (simp add: mode_verdict_def Let_def split: option.split bool.split)
  moreover have "fst (mode_verdict a b) = RelayFirst \<longrightarrow>
      Blocked \<in> {mapping_class a, mapping_class b} \<or> Symmetric \<in> {mapping_class a, mapping_class b}"
    by (auto simp: mode_verdict_def Let_def split: if_splits)
  ultimately show ?thesis using port_restricted_verdict [of a b] by simp
qed

theorem relay_is_justified_witness:
  "mode (plan_for_pair
     \<lparr>mapping_class = Inconclusive, filtering = FilteringUnknown, filtering_probe = None,
      observations = 0, local_udp = [], selected_stun = None, candidate_kinds = [],
      candidate_count = 0, reflexive_count = 0, port_preserved = None\<rparr>
     \<lparr>mapping_class = Cone, filtering = FilteringUnknown, filtering_probe = None,
      observations = 0, local_udp = [], selected_stun = None, candidate_kinds = [],
      candidate_count = 1, reflexive_count = 0, port_preserved = None\<rparr>) \<notin> {RelayOnly, RelayFirst}"
  (is "mode (plan_for_pair ?a ?b) \<notin> _")
proof -
  note just = relay_is_justified [of ?a ?b]
  have "mode (plan_for_pair ?a ?b) \<noteq> RelayOnly" using just [THEN conjunct1] by simp
  moreover have "mode (plan_for_pair ?a ?b) \<noteq> RelayFirst"
    using just [THEN conjunct2, THEN conjunct2] by (simp del: plan_mode)
  ultimately show ?thesis by blast
qed

lemma direct_candidates_shape:
  "distinct (direct_candidates a b) \<and> RelayFallback \<notin> set (direct_candidates a b)"
  by (auto simp: direct_candidates_def Let_def)

lemma remdups_adj_distinct: "distinct xs \<Longrightarrow> remdups_adj xs = xs"
  by (induction xs rule: remdups_adj.induct) auto

text \<open>
  C31. Every plan can end: its candidate order lists each kind at most once and always holds
  the relay, last when direct paths are tried first, first when the relay is preferred, and
  alone when there is nothing else; and a plan of budget zero is exactly a relay-only plan.
\<close>

theorem candidate_order_sound:
  fixes a b
  defines "p \<equiv> plan_for_pair a b"
  shows "distinct (candidate_order p) \<and>
    (mode p \<in> {DirectFirst, DirectWithRetry} \<longrightarrow>
       last (candidate_order p) = RelayFallback \<and> candidate_order p \<noteq> []) \<and>
    (mode p = RelayFirst \<longrightarrow>
       candidate_order p = RelayFallback # direct_candidates a b) \<and>
    (mode p = RelayOnly \<longrightarrow> candidate_order p = [RelayFallback]) \<and>
    (retry_budget p = 0 \<longleftrightarrow> mode p = RelayOnly)"
proof -
  obtain m code reason where s: "select_mode a b = (m, code, reason)" by (cases "select_mode a b")
  have d: "remdups_adj (direct_candidates a b @ [RelayFallback]) = direct_candidates a b @ [RelayFallback]"
    using direct_candidates_shape [of a b] by (intro remdups_adj_distinct) simp
  have f: "filter (\<lambda>k. k \<noteq> RelayFallback) (direct_candidates a b) = direct_candidates a b"
    using direct_candidates_shape [of a b] by (auto simp: filter_id_conv)
  show ?thesis
    using s d f direct_candidates_shape [of a b]
    by (cases m) (simp_all add: p_def plan_for_pair_def plan_budgets_def candidate_order_for_def Let_def)
qed

theorem candidate_order_sound_witness:
  "\<exists>p :: nat_profile. candidate_order (plan_for_pair p p) = [Reflexive, RelayFallback] \<and>
     last (candidate_order (plan_for_pair p p)) = RelayFallback"
proof -
  let ?p = "\<lparr>mapping_class = Cone, filtering = FilteringUnknown, filtering_probe = None,
      observations = 2, local_udp = [], selected_stun = None, candidate_kinds = [Reflexive],
      candidate_count = 1, reflexive_count = 1, port_preserved = None\<rparr>"
  have "candidate_order (plan_for_pair ?p ?p) = [Reflexive, RelayFallback]"
    by (simp add: plan_for_pair_def select_mode_def mode_verdict_def direct_friendly_def Let_def
        candidate_order_for_def direct_candidates_def has_candidate_kind_def plan_budgets_def)
  moreover have "mode (plan_for_pair ?p ?p) = DirectFirst"
    by (simp add: mode_verdict_def direct_friendly_def)
  ultimately show ?thesis
    using candidate_order_sound [of ?p ?p] by (intro exI [of _ ?p]) (simp del: plan_mode)
qed

end
