(* ===== verification/Web_Json.thy ===== *)
theory Web_Json
  imports Rust_Text
begin

text \<open>
  JSON values of the web transfer protocol (\<^verbatim>\<open>src/src/web_transfer_protocol.rs\<close>): the values
  of \<^verbatim>\<open>serde_json\<close>, the deserialization that refuses repeated keys and the canonical
  rendering that digests and authentication codes are computed over.

  An object of \<^verbatim>\<open>serde_json\<close> is a \<^verbatim>\<open>BTreeMap<String, Value>\<close>; it is an association list whose
  keys are strictly increasing in byte order, which is the order of \<open>string\<close> here. The text
  parser of the crate is a parameter that gives the tree of the document as written, with the
  members of objects in the order of the text and repeated keys kept. Error texts are
  abstracted to the classes of \<open>proto_error\<close>.
\<close>

section \<open>Values\<close>

datatype jnum = PosInt nat | NegInt int | Float "64 word"

datatype json =
    JNull
  | JBool bool
  | JNum jnum
  | JStr string
  | JArr "json list"
  | JObj "(string \<times> json) list"

type_synonym jmap = "(string \<times> json) list"

datatype proto_error =
    TooLarge
  | NotJson
  | NotObject
  | UnknownField string
  | NeedsField string
  | BadField string
  | BadVersion nat
  | UnknownType string
  | WrongType string
  | NeedsRequestId
  | UnexpectedRequestId
  | BadHex
  | BadDecimal
  | OutOfRange string
  | NotSorted
  | NotUnique
  | Overlap
  | NoCanonicalForm
  | BadSelection
  | BadManifest string
  | BadFrame string
  | BadMac

fun as_object :: "json \<Rightarrow> jmap option" where
  "as_object (JObj m) = Some m"
| "as_object _ = None"

fun as_array :: "json \<Rightarrow> json list option" where
  "as_array (JArr xs) = Some xs"
| "as_array _ = None"

fun as_str :: "json \<Rightarrow> string option" where
  "as_str (JStr s) = Some s"
| "as_str _ = None"

fun as_u64 :: "json \<Rightarrow> nat option" where
  "as_u64 (JNum (PosInt n)) = Some n"
| "as_u64 _ = None"

section \<open>Ordered maps\<close>

text \<open>\<^verbatim>\<open>BTreeMap::insert\<close> (which is also \<^verbatim>\<open>serde_json::Map::insert\<close>).\<close>

fun bt_insert :: "'k::linorder \<Rightarrow> 'v \<Rightarrow> ('k \<times> 'v) list \<Rightarrow> ('k \<times> 'v) list" where
  "bt_insert k v [] = [(k, v)]"
| "bt_insert k v ((k', v') # m) =
     (if k < k' then (k, v) # (k', v') # m
      else if k = k' then (k, v) # m
      else (k', v') # bt_insert k v m)"

definition bt_inv :: "('k::linorder \<times> 'v) list \<Rightarrow> bool" where
  "bt_inv m = sorted_wrt (<) (map fst m)"

definition bt_of :: "('k::linorder \<times> 'v) list \<Rightarrow> ('k \<times> 'v) list" where
  "bt_of kvs = foldl (\<lambda>m (k, v). bt_insert k v m) [] kvs"

text \<open>What the code relies on from a map: the last insertion of a key is what is found.\<close>

locale ordered_map =
  fixes empty_map :: "'m"
    and insert_map :: "'k \<Rightarrow> 'v \<Rightarrow> 'm \<Rightarrow> 'm"
    and lookup_map :: "'m \<Rightarrow> 'k \<Rightarrow> 'v option"
    and map_inv :: "'m \<Rightarrow> bool"
  assumes inv_empty: "map_inv empty_map"
    and inv_insert: "map_inv m \<Longrightarrow> map_inv (insert_map k v m)"
    and lookup_empty: "lookup_map empty_map k = None"
    and lookup_insert:
      "map_inv m \<Longrightarrow> lookup_map (insert_map k v m) j = (if j = k then Some v else lookup_map m j)"
begin

definition build :: "('k \<times> 'v) list \<Rightarrow> 'm" where
  "build kvs = foldl (\<lambda>m (k, v). insert_map k v m) empty_map kvs"

lemma build_snoc: "build (kvs @ [(k, v)]) = insert_map k v (build kvs)"
  by (simp add: build_def)

lemma inv_build: "map_inv (build kvs)"
proof (induction kvs rule: rev_induct)
  case (snoc kv kvs)
  then show ?case by (cases kv) (simp add: build_snoc inv_insert)
qed (simp add: build_def inv_empty)

lemma lookup_build: "lookup_map (build kvs) k = map_of (rev kvs) k"
proof (induction kvs rule: rev_induct)
  case (snoc kv kvs)
  then show ?case by (cases kv) (simp add: build_snoc lookup_insert inv_build)
qed (simp add: build_def lookup_empty)

end

lemma fst_bt_insert: "fst ` set (bt_insert k v m) = insert k (fst ` set m)"
  by (induction k v m rule: bt_insert.induct) auto

lemma bt_inv_Nil [simp]: "bt_inv []"
  by (simp add: bt_inv_def)

lemma bt_inv_Cons: "bt_inv ((k, v) # m) \<longleftrightarrow> (\<forall>j \<in> fst ` set m. k < j) \<and> bt_inv m"
  by (simp add: bt_inv_def)

lemma bt_inv_insert: "bt_inv m \<Longrightarrow> bt_inv (bt_insert k v m)"
  by (induction k v m rule: bt_insert.induct) (auto simp: bt_inv_Cons fst_bt_insert)

lemma map_of_bt_insert:
  "bt_inv m \<Longrightarrow> map_of (bt_insert k v m) j = (if j = k then Some v else map_of m j)"
proof (induction k v m rule: bt_insert.induct)
  case (2 k v k' v' m)
  then have "\<forall>x\<in>fst ` set m. k' < x" "bt_inv m" by (simp_all add: bt_inv_Cons)
  moreover have "map_of m k = None" if "k < k' \<or> k = k'"
    using \<open>\<forall>x\<in>fst ` set m. k' < x\<close> that by (auto simp: map_of_eq_None_iff dest: bspec)
  ultimately show ?case using 2 by auto
qed simp

interpretation btree: ordered_map "[] :: ('k::linorder \<times> 'v) list" bt_insert map_of bt_inv
  by unfold_locales (simp_all add: bt_inv_insert map_of_bt_insert)

lemma bt_of_build: "bt_of = btree.build"
  by (rule ext) (simp add: bt_of_def btree.build_def)

lemma bt_inv_bt_of [simp]: "bt_inv (bt_of kvs)"
  by (simp add: bt_of_build btree.inv_build)

lemma map_of_bt_of: "map_of (bt_of kvs) k = map_of (rev kvs) k"
  by (simp add: bt_of_build btree.lookup_build)

lemma bt_inv_iff: "bt_inv m \<longleftrightarrow> sorted (map fst m) \<and> distinct (map fst m)"
  by (simp add: bt_inv_def strict_sorted_iff)

lemma bt_inv_sort: "bt_inv m \<Longrightarrow> sort_key fst m = m"
  by (rule sort_key_id_if_sorted) (simp add: bt_inv_iff)

lemma map_of_rev_distinct: "distinct (map fst kvs) \<Longrightarrow> map_of (rev kvs) = map_of kvs"
  by (intro map_of_inject_set [THEN iffD2]) (simp_all add: rev_map [symmetric])

lemma set_bt_insert: "set (bt_insert k v m) \<subseteq> insert (k, v) (set m)"
  by (induction k v m rule: bt_insert.induct) auto

lemma bt_of_snoc: "bt_of (kvs @ [(k, v)]) = bt_insert k v (bt_of kvs)"
  by (simp add: bt_of_def)

lemma keys_bt_of [simp]: "fst ` set (bt_of kvs) = fst ` set kvs"
proof (induction kvs rule: rev_induct)
  case (snoc kv kvs)
  then show ?case by (cases kv) (simp add: bt_of_snoc fst_bt_insert)
qed (simp add: bt_of_def)

lemma set_bt_of: "set (bt_of kvs) \<subseteq> set kvs"
proof (induction kvs rule: rev_induct)
  case (snoc kv kvs)
  then show ?case using set_bt_insert [of "fst kv" "snd kv" "bt_of kvs"] by (cases kv) (auto simp: bt_of_snoc)
qed (simp add: bt_of_def)

text \<open>A map of this form is determined by what its keys are bound to.\<close>

lemma bt_inv_eqI:
  assumes "bt_inv m" "bt_inv m'" "map_of m = map_of m'"
  shows "m = m'"
proof -
  have s: "set m = set m'" using assms by (simp add: map_of_inject_set bt_inv_iff)
  moreover have "inj_on fst (set m \<union> set m')" using s assms(1) by (simp add: bt_inv_iff distinct_map)
  ultimately show ?thesis
    using assms by (intro map_sorted_distinct_set_unique [of fst]) (simp_all add: bt_inv_iff)
qed

section \<open>Refusing repeated keys\<close>

text \<open>
  The visitor \<^verbatim>\<open>NoDupes\<close>, on the tree of the document: \<open>no_dupes\<close> is \<^verbatim>\<open>deserialize\<close> with
  the scalar visits and \<^verbatim>\<open>visit_seq\<close>, \<open>visit_map\<close> the loop of \<^verbatim>\<open>visit_map\<close> with the map
  built so far. \<open>visit_num\<close> is \<^verbatim>\<open>Value::from\<close> on the three number types; a float that is
  not finite becomes null.
\<close>

definition f64_is_finite :: "64 word \<Rightarrow> bool" where
  "f64_is_finite w = (unat w div 2 ^ 52 mod 2 ^ 11 \<noteq> 2 ^ 11 - 1)"

fun visit_num :: "jnum \<Rightarrow> json" where
  "visit_num (PosInt n) = JNum (PosInt n)"
| "visit_num (NegInt i) = (if i < 0 then JNum (NegInt i) else JNum (PosInt (nat i)))"
| "visit_num (Float w) = (if f64_is_finite w then JNum (Float w) else JNull)"

function (sequential) no_dupes :: "json \<Rightarrow> (proto_error, json) result"
  and visit_map :: "jmap \<Rightarrow> jmap \<Rightarrow> (proto_error, json) result" where
  "no_dupes (JNum n) = Inr (visit_num n)"
| "no_dupes (JArr xs) = rbind (rmap no_dupes xs) (\<lambda>ys. Inr (JArr ys))"
| "no_dupes (JObj kvs) = visit_map [] kvs"
| "no_dupes v = Inr v"
| "visit_map out [] = Inr (JObj out)"
| "visit_map out ((k, v) # kvs) =
     rbind (no_dupes v) (\<lambda>v'.
       if map_of out k \<noteq> None then Inl NotJson else visit_map (bt_insert k v' out) kvs)"
  by pat_completeness auto
termination
  by (relation "measure (case_sum size (\<lambda>(out, kvs). size_list (size_prod (\<lambda>_. 0) size) kvs))")
    (auto simp: less_Suc_eq_le size_list_estimation')

text \<open>What it computes: the tree with its maps ordered, provided no object repeats a key.\<close>

fun distinct_keys :: "json \<Rightarrow> bool" where
  "distinct_keys (JArr xs) = list_all distinct_keys xs"
| "distinct_keys (JObj kvs) = (distinct (map fst kvs) \<and> list_all (\<lambda>kv. distinct_keys (snd kv)) kvs)"
| "distinct_keys _ = True"

fun ordered :: "json \<Rightarrow> json" where
  "ordered (JNum n) = visit_num n"
| "ordered (JArr xs) = JArr (map ordered xs)"
| "ordered (JObj kvs) = JObj (bt_of (map (\<lambda>(k, v). (k, ordered v)) kvs))"
| "ordered v = v"

text \<open>The invariant of a value: ordered objects, and numbers in the range of their type.\<close>

fun jnum_ok :: "jnum \<Rightarrow> bool" where
  "jnum_ok (PosInt n) = (n \<le> u64_max)"
| "jnum_ok (NegInt i) = (- (2 ^ 63) \<le> i \<and> i < 0)"
| "jnum_ok (Float w) = f64_is_finite w"

fun json_ok :: "json \<Rightarrow> bool" where
  "json_ok (JNum n) = jnum_ok n"
| "json_ok (JArr xs) = list_all json_ok xs"
| "json_ok (JObj kvs) = (bt_inv kvs \<and> list_all (\<lambda>kv. json_ok (snd kv)) kvs)"
| "json_ok _ = True"

lemma no_dupes_visit_map_spec:
  "no_dupes t = (if distinct_keys t then Inr (ordered t) else Inl NotJson)"
  "bt_inv out \<Longrightarrow> visit_map out kvs =
     (if distinct (map fst kvs) \<and> (\<forall>k \<in> fst ` set kvs. map_of out k = None) \<and>
         list_all (\<lambda>kv. distinct_keys (snd kv)) kvs
      then Inr (JObj (foldl (\<lambda>m (k, v). bt_insert k v m) out (map (\<lambda>(k, v). (k, ordered v)) kvs)))
      else Inl NotJson)"
proof (induction t and out kvs rule: no_dupes_visit_map.induct)
  case (2 xs)
  then have "rmap no_dupes xs = (if list_all distinct_keys xs then Inr (map ordered xs) else Inl NotJson)"
    by (intro rmap_if) simp
  then show ?case by simp
next
  case (6 out k v kvs)
  have "bt_inv (bt_insert k v' out)" for v' using 6 by (simp add: bt_inv_insert)
  with 6 show ?case
    by (auto simp: map_of_bt_insert bt_inv_insert image_iff split: if_splits)
qed (auto simp: bt_of_def)

lemma ordered_id: "json_ok v \<Longrightarrow> ordered v = v \<and> distinct_keys v"
proof (induction v rule: ordered.induct)
  case (1 n)
  then show ?case by (cases n) auto
next
  case (2 xs)
  then show ?case by (auto simp: list_all_iff intro: map_idI)
next
  case (3 kvs)
  then have "map (\<lambda>(k, v). (k, ordered v)) kvs = kvs" "list_all (\<lambda>kv. distinct_keys (snd kv)) kvs"
    by (auto simp: list_all_iff intro!: map_idI)
  moreover have "bt_of kvs = kvs"
  proof (rule bt_inv_eqI)
    show "map_of (bt_of kvs) = map_of kvs"
      using 3 by (intro ext) (simp add: map_of_bt_of bt_inv_iff map_of_rev_distinct)
  qed (use 3 in simp_all)
  ultimately show ?case using 3 by (simp add: bt_inv_iff)
qed simp_all

lemma json_ok_obj: "json_ok (JObj (bt_of kvs))" if "list_all (\<lambda>kv. json_ok (snd kv)) kvs"
  using that set_bt_of [of kvs] by (auto simp: list_all_iff)

lemma no_dupes_ok: "json_ok v \<Longrightarrow> no_dupes v = Inr v"
  by (simp add: no_dupes_visit_map_spec(1) ordered_id)

text \<open>
  The functions of other crates that the protocol calls, as one parameter: the hex codec, the
  text parser and the string writer of \<^verbatim>\<open>serde_json\<close>, base64, the digests and keys of
  \<^verbatim>\<open>ring\<close>, and the Unicode tables (normalization, and the lowercase mapping of the standard
  library). Bytes are \<open>char\<close>s.
\<close>

record web_lib =
  hex_encode :: "string \<Rightarrow> string"
  hex_decode :: "string \<Rightarrow> string option"
  json_text :: "string \<Rightarrow> json option"
  json_escape :: "string \<Rightarrow> string"
  base64url_encode :: "string \<Rightarrow> string"
  base64url_decode :: "string \<Rightarrow> string option"
  sha256_digest :: "string \<Rightarrow> string"
  hkdf_sha256 :: "string \<Rightarrow> string \<Rightarrow> string \<Rightarrow> string"
  hmac_sha256 :: "string \<Rightarrow> string \<Rightarrow> string"
  aes_gcm_seal :: "string \<Rightarrow> string \<Rightarrow> string \<Rightarrow> string \<Rightarrow> string option"
  aes_gcm_open :: "string \<Rightarrow> string \<Rightarrow> string \<Rightarrow> string \<Rightarrow> string option"
  nfc :: "string \<Rightarrow> string"
  is_nfc :: "string \<Rightarrow> bool"
  str_lowercase :: "string \<Rightarrow> string"

text \<open>A concrete value of the parameter, for the witnesses of the theorems.\<close>

definition hex_nibble :: "nat \<Rightarrow> char" where
  "hex_nibble n = char_of (if n < 10 then 48 + n else 87 + n)"

definition nibble_value :: "char \<Rightarrow> nat option" where
  "nibble_value c =
     (if 48 \<le> byte_of c \<and> byte_of c \<le> 57 then Some (byte_of c - 48)
      else if 97 \<le> byte_of c \<and> byte_of c \<le> 102 then Some (byte_of c - 87) else None)"

fun sample_hex_encode :: "string \<Rightarrow> string" where
  "sample_hex_encode [] = []"
| "sample_hex_encode (c # s) =
     hex_nibble (byte_of c div 16) # hex_nibble (byte_of c mod 16) # sample_hex_encode s"

fun sample_hex_decode :: "string \<Rightarrow> string option" where
  "sample_hex_decode [] = Some []"
| "sample_hex_decode [c] = None"
| "sample_hex_decode (c # d # s) =
     (case (nibble_value c, nibble_value d, sample_hex_decode s) of
        (Some h, Some l, Some bs) \<Rightarrow> Some (char_of (16 * h + l) # bs)
      | _ \<Rightarrow> None)"

definition sextet_char :: "nat \<Rightarrow> char" where
  "sextet_char d = char_of (if d < 26 then 65 + d else if d < 52 then 71 + d
     else if d < 62 then d - 4 else if d = 62 then 45 else 95)"

definition sextet_value :: "char \<Rightarrow> nat" where
  "sextet_value c =
     (if 97 \<le> byte_of c \<and> byte_of c \<le> 122 then byte_of c - 71
      else if 65 \<le> byte_of c \<and> byte_of c \<le> 90 then byte_of c - 65
      else if 48 \<le> byte_of c \<and> byte_of c \<le> 57 then byte_of c + 4
      else if byte_of c = 45 then 62 else 63)"

definition sample_base64_encode :: "string \<Rightarrow> string" where
  "sample_base64_encode b = map sextet_char (be_digits 64 22 (16 * from_be_bytes b))"

definition sample_base64_decode :: "string \<Rightarrow> string option" where
  "sample_base64_decode s = Some (to_be_bytes 16 (be_val 64 (map sextet_value s) div 16))"

fun sample_quote :: "string \<Rightarrow> string" where
  "sample_quote [] = [CHR 0x22]"
| "sample_quote (c # s) =
     (if c = CHR 0x22 \<or> c = CHR 0x5C then CHR 0x5C # c # sample_quote s else c # sample_quote s)"

definition sample_lib :: web_lib where
  "sample_lib = \<lparr>
     hex_encode = sample_hex_encode,
     hex_decode = sample_hex_decode,
     json_text = (\<lambda>_. None),
     json_escape = (\<lambda>s. CHR 0x22 # sample_quote s),
     base64url_encode = sample_base64_encode,
     base64url_decode = sample_base64_decode,
     sha256_digest = (\<lambda>s. take 32 (s @ replicate 32 (CHR 0x00))),
     hkdf_sha256 = (\<lambda>ikm salt info. take 32 (ikm @ salt @ info @ replicate 32 (CHR 0x00))),
     hmac_sha256 = (\<lambda>key s. take 32 (s @ key @ replicate 32 (CHR 0x00))),
     aes_gcm_seal = (\<lambda>key nonce aad p. Some (p @ replicate 16 (CHR 0x00))),
     aes_gcm_open = (\<lambda>key nonce aad c.
       if 16 \<le> length c \<and> drop (length c - 16) c = replicate 16 (CHR 0x00)
       then Some (take (length c - 16) c) else None),
     nfc = (\<lambda>s. s),
     is_nfc = (\<lambda>_. True),
     str_lowercase = to_ascii_lowercase\<rparr>"

definition parse_json_no_duplicate_keys :: "web_lib \<Rightarrow> string \<Rightarrow> (proto_error, json) result" where
  "parse_json_no_duplicate_keys L raw =
     (case json_text L raw of None \<Rightarrow> Inl NotJson | Some t \<Rightarrow> no_dupes t)"

lemma map_of_ordered_members:
  "map_of (map (\<lambda>(k, v). (k, ordered v)) kvs) k = map_option ordered (map_of kvs k)"
  by (induction kvs) auto

lemma ordered_lookup:
  assumes "distinct (map fst kvs)"
  shows "\<exists>m. ordered (JObj kvs) = JObj m \<and> bt_inv m \<and> (\<forall>k. map_of m k = map_option ordered (map_of kvs k))"
proof -
  let ?kvs = "map (\<lambda>(k, v). (k, ordered v)) kvs"
  have "map fst ?kvs = map fst kvs" by auto
  then have "distinct (map fst ?kvs)" using assms by (simp only:)
  then have "map_of (rev ?kvs) = map_of ?kvs" by (rule map_of_rev_distinct)
  then show ?thesis by (simp add: map_of_bt_of map_of_ordered_members)
qed

text \<open>
  C12. A control message has one reading: the parser accepts exactly the documents in which no
  object, at any depth, repeats a key, and every key of the value it gives is bound to what
  the document binds it to. A repeated key is an error wherever it stands.
\<close>

theorem json_no_duplicates:
  "(parse_json_no_duplicate_keys L raw = Inr v \<longleftrightarrow>
      (\<exists>t. json_text L raw = Some t \<and> distinct_keys t \<and> v = ordered t)) \<and>
   (\<forall>kvs. json_text L raw = Some (JObj kvs) \<and> distinct_keys (JObj kvs) \<longrightarrow>
      (\<exists>m. parse_json_no_duplicate_keys L raw = Inr (JObj m) \<and> bt_inv m \<and>
         (\<forall>k. map_of m k = map_option ordered (map_of kvs k)))) \<and>
   (\<forall>t. json_text L raw = Some t \<and> \<not> distinct_keys t \<longrightarrow>
      parse_json_no_duplicate_keys L raw = Inl NotJson)"
  using ordered_lookup
  by (auto simp: parse_json_no_duplicate_keys_def no_dupes_visit_map_spec(1) simp del: ordered.simps
      split: option.splits if_splits)

theorem json_no_duplicates_witness:
  "parse_json_no_duplicate_keys
     (sample_lib\<lparr>json_text := \<lambda>_. Some (JObj [(''v'', JNum (PosInt 1)), (''v'', JNull)])\<rparr>) ''{..}'' = Inl NotJson"
  by (rule json_no_duplicates [THEN conjunct2, THEN conjunct2, rule_format,
      of _ _ "JObj [(''v'', JNum (PosInt 1)), (''v'', JNull)]"]) simp

section \<open>Canonical rendering\<close>

definition json_safe_integer_max :: nat where "json_safe_integer_max = 9007199254740991"

definition show_int :: "int \<Rightarrow> string" where
  "show_int i = (if i < 0 then CHR ''-'' # show_nat (nat (- i)) else show_nat (nat i))"

fun write_number :: "jnum \<Rightarrow> (proto_error, string) result" where
  "write_number (PosInt u) =
     (if json_safe_integer_max < u then Inl NoCanonicalForm else Inr (show_nat u))"
| "write_number (NegInt i) =
     (if json_safe_integer_max < nat \<bar>i\<bar> then Inl NoCanonicalForm else Inr (show_int i))"
| "write_number (Float w) = Inl NoCanonicalForm"

function (sequential) write_canonical :: "web_lib \<Rightarrow> json \<Rightarrow> (proto_error, string) result" where
  "write_canonical L JNull = Inr ''null''"
| "write_canonical L (JBool True) = Inr ''true''"
| "write_canonical L (JBool False) = Inr ''false''"
| "write_canonical L (JNum n) = write_number n"
| "write_canonical L (JStr s) = Inr (json_escape L s)"
| "write_canonical L (JArr xs) =
     rbind (rmap (write_canonical L) xs) (\<lambda>ts. Inr (''['' @ join '','' ts @ '']''))"
| "write_canonical L (JObj m) =
     rbind (rmap (\<lambda>kv. rbind (write_canonical L (snd kv))
                         (\<lambda>t. Inr (json_escape L (fst kv) @ '':'' @ t)))
              (sort_key fst m))
       (\<lambda>ts. Inr (''{'' @ join '','' ts @ ''}''))"
  by pat_completeness auto
termination
  by (relation "measure (\<lambda>(L, v). size v)")
    (auto simp: less_Suc_eq_le size_list_estimation' intro: size_list_estimation')

definition canonical_json :: "web_lib \<Rightarrow> json \<Rightarrow> (proto_error, string) result" where
  "canonical_json L v = write_canonical L v"

text \<open>
  What is relied on of the string writer: a literal opens with a quote, and where it ends is
  read off the literal itself, so that it stands for one string only.
\<close>

definition escape_ok :: "web_lib \<Rightarrow> bool" where
  "escape_ok L = ((\<forall>s. \<exists>t. json_escape L s = CHR 0x22 # t) \<and>
     (\<forall>s s' r r'. json_escape L s @ r = json_escape L s' @ r' \<longrightarrow> s = s'))"

definition delim :: "string \<Rightarrow> bool" where
  "delim r = (r = [] \<or> hd r \<in> {CHR '','', CHR '']'', CHR ''}''})"

lemma escape_ok_quote: "escape_ok L \<Longrightarrow> \<exists>t. json_escape L s = CHR 0x22 # t"
  by (simp add: escape_ok_def)

lemma escape_ok_split:
  "escape_ok L \<Longrightarrow> json_escape L s @ r = json_escape L s' @ r' \<Longrightarrow> s = s' \<and> r = r'"
  unfolding escape_ok_def by (metis same_append_eq)

lemma join_Cons: "join '','' (t # ts) = t @ concat (map ((#) (CHR '','')) ts)"
  by (induction "'',''" "t # ts" arbitrary: t ts rule: join.induct) auto

lemma show_nat_split:
  assumes "show_nat n @ r = show_nat m @ r'" "delim r" "delim r'"
  shows "n = m \<and> r = r'"
proof -
  have stop: "takeWhile is_ascii_digit (show_nat k @ q) = show_nat k" if "delim q" for k q
  proof -
    have "takeWhile is_ascii_digit q = []"
      using that by (cases q) (auto simp: delim_def is_ascii_digit_def byte_of_def)
    then show ?thesis using show_nat_digits [of k] by (simp add: list_all_iff takeWhile_append2)
  qed
  from assms stop [of r n] stop [of r' m] have "show_nat n = show_nat m" by metis
  with assms(1) show ?thesis by simp
qed

text \<open>Each form of value starts with a character of its own.\<close>

definition lead :: "char \<Rightarrow> nat" where
  "lead c = (if is_ascii_digit c then 7 else if c = CHR ''n'' then 0 else if c = CHR ''t'' then 1
     else if c = CHR ''f'' then 2 else if c = CHR ''-'' then 3 else if c = CHR 0x22 then 4
     else if c = CHR ''['' then 5 else if c = CHR ''{'' then 6 else 8)"

fun form :: "json \<Rightarrow> nat" where
  "form JNull = 0"
| "form (JBool b) = (if b then 1 else 2)"
| "form (JNum (NegInt i)) = 3"
| "form (JNum _) = 7"
| "form (JStr s) = 4"
| "form (JArr xs) = 5"
| "form (JObj m) = 6"

lemma lead_digit: "is_ascii_digit c \<Longrightarrow> lead c = 7"
  by (simp add: lead_def)

lemma lead_consts [simp]:
  "lead CHR ''n'' = 0" "lead CHR ''t'' = 1" "lead CHR ''f'' = 2" "lead CHR ''-'' = 3"
  "lead CHR 0x22 = 4" "lead CHR ''['' = 5" "lead CHR ''{'' = 6"
  by (simp_all add: lead_def is_ascii_digit_def byte_of_def)

lemma show_nat_lead: "\<exists>c t. show_nat n = c # t \<and> lead c = 7"
proof (cases "show_nat n")
  case (Cons c t)
  then have "is_ascii_digit c" using show_nat_digits [of n] by simp
  with Cons show ?thesis by (simp add: lead_digit)
qed simp

lemma write_canonical_lead:
  assumes "write_canonical L v = Inr s" "escape_ok L" "json_ok v"
  shows "\<exists>c t. s = c # t \<and> lead c = form v \<and> form v < 8"
proof (cases v)
  case (JNum n)
  show ?thesis
  proof (cases n)
    case (PosInt k)
    then have "s = show_nat k" using assms(1) JNum by (simp split: if_splits)
    then show ?thesis using show_nat_lead [of k] JNum PosInt by simp
  next
    case (NegInt i)
    then have "write_number (NegInt i) = Inr s" using assms(1) JNum by simp
    then have "s = show_int i" by (simp split: if_splits)
    moreover have "i < 0" using NegInt JNum assms(3) by simp
    ultimately have "s = CHR ''-'' # show_nat (nat (- i))" by (simp add: show_int_def)
    then show ?thesis using JNum NegInt by simp
  next
    case (Float w)
    then show ?thesis using assms(1) JNum by simp
  qed
next
  case (JBool b)
  show ?thesis
  proof (cases b)
    case True
    then have "s = ''true''" using assms(1) JBool by simp
    then show ?thesis using True JBool by simp
  next
    case False
    then have "s = ''false''" using assms(1) JBool by simp
    then show ?thesis using False JBool by simp
  qed
next
  case (JStr x)
  then have "s = json_escape L x" using assms(1) by simp
  moreover obtain t where "json_escape L x = CHR 0x22 # t" using escape_ok_quote [OF assms(2)] by blast
  ultimately show ?thesis using JStr by simp
next
  case JNull
  then have "s = ''null''" using assms(1) by simp
  then show ?thesis using JNull by simp
next
  case (JArr xs)
  then obtain ts where "s = ''['' @ join '','' ts @ '']''" using assms(1) by (auto simp: result_simps)
  then show ?thesis using JArr by simp
next
  case (JObj m)
  then obtain ts where "s = ''{'' @ join '','' ts @ ''}''" using assms(1) by (auto simp: result_simps)
  then show ?thesis using JObj by simp
qed

text \<open>An element whose text, when it is followed by a delimiter, is the text of no other element.\<close>

definition self_delimiting ::
  "('a \<Rightarrow> (proto_error, string) result) \<Rightarrow> ('a \<Rightarrow> bool) \<Rightarrow> 'a \<Rightarrow> bool" where
  "self_delimiting f ok x = (\<forall>y s t r r'. ok y \<and> f x = Inr s \<and> f y = Inr t \<and> s @ r = t @ r' \<and>
     delim r \<and> delim r' \<longrightarrow> x = y \<and> r = r')"

lemma self_delimitingD:
  "self_delimiting f ok x \<Longrightarrow> ok y \<Longrightarrow> f x = Inr s \<Longrightarrow> f y = Inr t \<Longrightarrow> s @ r = t @ r' \<Longrightarrow>
     delim r \<Longrightarrow> delim r' \<Longrightarrow> x = y \<and> r = r'"
  unfolding self_delimiting_def by blast

lemma separated_unique:
  assumes el: "list_all (self_delimiting f ok) xs"
    and "rmap f xs = Inr ts" "rmap f ys = Inr us" "list_all ok ys" "c \<in> {CHR '']'', CHR ''}''}"
    and "concat (map ((#) (CHR '','')) ts) @ c # r = concat (map ((#) (CHR '','')) us) @ c # r'"
  shows "xs = ys \<and> r = r'"
  using assms
proof (induction xs arbitrary: ys ts us)
  case Nil
  then show ?case by (cases ys) (auto simp: result_simps)
next
  case (Cons x xs)
  from Cons.prems(2) obtain s ts' where s: "f x = Inr s" "rmap f xs = Inr ts'" "ts = s # ts'"
    by (auto simp: result_simps)
  have "ys \<noteq> []" using Cons.prems(3,5,6) s(3) by auto
  then obtain y ys' t us' where t: "ys = y # ys'" "f y = Inr t" "rmap f ys' = Inr us'" "us = t # us'"
    using Cons.prems(3) by (cases ys) (auto simp: result_simps)
  let ?tail = "\<lambda>zs q. concat (map ((#) (CHR '','')) zs) @ c # q"
  have d: "delim (?tail zs q)" for zs q
    using Cons.prems(5) by (cases zs) (auto simp: delim_def)
  have e: "s @ ?tail ts' r = t @ ?tail us' r'" using Cons.prems(6) s(3) t(4) by simp
  have x: "self_delimiting f ok x" "list_all (self_delimiting f ok) xs" using Cons.prems(1) by simp_all
  have y: "ok y" "list_all ok ys'" using Cons.prems(4) t(1) by simp_all
  from self_delimitingD [OF x(1) y(1) s(1) t(2) e d d]
  have xy: "x = y" and rest: "?tail ts' r = ?tail us' r'" by simp_all
  from Cons.IH [OF x(2) s(2) t(3) y(2) Cons.prems(5) rest] show ?case using t(1) xy by simp
qed

lemma joined_unique:
  assumes el: "list_all (self_delimiting f ok) xs"
    and ne: "\<And>x s. x \<in> set xs \<union> set ys \<Longrightarrow> f x = Inr s \<Longrightarrow> s \<noteq> [] \<and> hd s \<noteq> c"
    and r: "rmap f xs = Inr ts" "rmap f ys = Inr us" "list_all ok ys" "c \<in> {CHR '']'', CHR ''}''}"
    and eq: "join '','' ts @ c # r = join '','' us @ c # r'"
  shows "xs = ys \<and> r = r'"
proof (cases xs)
  case Nil
  then have "ts = []" using r(1) by simp
  moreover have "ys = []"
  proof (cases ys)
    case (Cons y ys')
    with r(2) obtain t us' where t: "f y = Inr t" "us = t # us'" by (auto simp: result_simps)
    from ne [OF _ t(1)] Cons have "t \<noteq> []" "hd t \<noteq> c" by auto
    with eq t \<open>ts = []\<close> show ?thesis by (cases t) (auto simp: join_Cons)
  qed simp
  ultimately show ?thesis using Nil eq r(2) by simp
next
  case (Cons x xs')
  with r(1) obtain s ts' where s: "f x = Inr s" "rmap f xs' = Inr ts'" "ts = s # ts'"
    by (auto simp: result_simps)
  have "ys \<noteq> []"
  proof
    assume "ys = []"
    with r(2) have "us = []" by simp
    moreover from ne [OF _ s(1)] Cons have "s \<noteq> []" "hd s \<noteq> c" by auto
    ultimately show False using eq s(3) by (cases s) (auto simp: join_Cons)
  qed
  then obtain y ys' t us' where t: "ys = y # ys'" "f y = Inr t" "rmap f ys' = Inr us'" "us = t # us'"
    using r(2) by (cases ys) (auto simp: result_simps)
  let ?tail = "\<lambda>zs q. concat (map ((#) (CHR '','')) zs) @ c # q"
  have d: "delim (?tail zs q)" for zs q
    using r(4) by (cases zs) (auto simp: delim_def)
  have e: "s @ ?tail ts' r = t @ ?tail us' r'" using eq s(3) t(4) by (simp add: join_Cons)
  have x: "self_delimiting f ok x" "list_all (self_delimiting f ok) xs'" using el Cons by simp_all
  have y: "ok y" "list_all ok ys'" using r(3) t(1) by simp_all
  from self_delimitingD [OF x(1) y(1) s(1) t(2) e d d]
  have xy: "x = y" and rest: "?tail ts' r = ?tail us' r'" by simp_all
  from separated_unique [OF x(2) s(2) t(3) y(2) r(4) rest] show ?thesis using t(1) Cons xy by simp
qed

lemma same_form:
  assumes "write_canonical L v = Inr s" "write_canonical L w = Inr t" "s @ r = t @ r'"
    "escape_ok L" "json_ok v" "json_ok w"
  shows "form v = form w"
proof -
  obtain c s' where s: "s = c # s'" "lead c = form v"
    using write_canonical_lead [OF assms(1,4,5)] by blast
  obtain d t' where t: "t = d # t'" "lead d = form w"
    using write_canonical_lead [OF assms(2,4,6)] by blast
  have "c = d" using assms(3) s(1) t(1) by simp
  then show ?thesis using s(2) t(2) by simp
qed

lemma same_form_cases:
  assumes "form v = form w"
  obtains "v = w" | n where "v = JNum n" "\<exists>n'. w = JNum n'" | s where "v = JStr s" "\<exists>s'. w = JStr s'"
    | xs where "v = JArr xs" "\<exists>ys. w = JArr ys" | m where "v = JObj m" "\<exists>m'. w = JObj m'"
  using assms by (cases v rule: form.cases; cases w rule: form.cases) (auto split: if_splits)

lemma write_number_unique:
  assumes "write_number n = Inr s" "write_number n' = Inr t" "s @ r = t @ r'" "delim r" "delim r'"
    "jnum_ok n" "jnum_ok n'" "form (JNum n) = form (JNum n')"
  shows "n = n' \<and> r = r'"
proof (cases n)
  case (PosInt k)
  with assms(2,8) obtain k' where "n' = PosInt k'" by (cases n') auto
  with PosInt assms show ?thesis using show_nat_split [of k r k' r'] by (simp split: if_splits)
next
  case (NegInt i)
  with assms(8) obtain i' where i': "n' = NegInt i'" by (cases n') auto
  with NegInt assms have "i < 0" "i' < 0" by simp_all
  moreover from this have "show_nat (nat (- i)) @ r = show_nat (nat (- i')) @ r'"
    using NegInt i' assms(1-3) by (auto simp: show_int_def split: if_splits)
  ultimately show ?thesis using show_nat_split [of "nat (- i)" r "nat (- i')" r'] assms(4,5) NegInt i' by auto
next
  case (Float w)
  then show ?thesis using assms(1) by simp
qed

lemma member_self_delimiting:
  assumes "escape_ok L" "self_delimiting (write_canonical L) json_ok (snd kv)"
  shows "self_delimiting
    (\<lambda>kv. rbind (write_canonical L (snd kv)) (\<lambda>t. Inr (json_escape L (fst kv) @ '':'' @ t)))
    (\<lambda>kv. json_ok (snd kv)) kv"
  unfolding self_delimiting_def
proof (intro allI impI, elim conjE)
  fix kw s t r r'
  assume ok: "json_ok (snd kw)" and d: "delim r" "delim r'" and eq: "s @ r = t @ r'"
    and w: "rbind (write_canonical L (snd kv)) (\<lambda>t. Inr (json_escape L (fst kv) @ '':'' @ t)) = Inr s"
      "rbind (write_canonical L (snd kw)) (\<lambda>t. Inr (json_escape L (fst kw) @ '':'' @ t)) = Inr t"
  from w obtain s' t' where v: "write_canonical L (snd kv) = Inr s'" "s = json_escape L (fst kv) @ '':'' @ s'"
    "write_canonical L (snd kw) = Inr t'" "t = json_escape L (fst kw) @ '':'' @ t'"
    unfolding rbind_Inr_iff by blast
  have "json_escape L (fst kv) @ ('':'' @ s' @ r) = json_escape L (fst kw) @ ('':'' @ t' @ r')"
    using eq v(2,4) by simp
  from escape_ok_split [OF assms(1) this] have k: "fst kv = fst kw" and "s' @ r = t' @ r'" by simp_all
  from self_delimitingD [OF assms(2) ok v(1,3) this(2) d] have "snd kv = snd kw \<and> r = r'" .
  with k show "kv = kw \<and> r = r'" by (simp add: prod_eq_iff)
qed

lemma array_unique:
  assumes L: "escape_ok L" and x: "list_all (self_delimiting (write_canonical L) json_ok) xs"
    and o: "list_all json_ok xs" "list_all json_ok ys"
    and w: "write_canonical L (JArr xs) = Inr s" "write_canonical L (JArr ys) = Inr t" "s @ r = t @ r'"
  shows "xs = ys \<and> r = r'"
proof -
  obtain ts us where t: "rmap (write_canonical L) xs = Inr ts" "s = ''['' @ join '','' ts @ '']''"
    "rmap (write_canonical L) ys = Inr us" "t = ''['' @ join '','' us @ '']''"
    using w(1,2) by (auto simp: result_simps)
  have "z \<noteq> [] \<and> hd z \<noteq> CHR '']''" if y: "y \<in> set xs \<union> set ys" "write_canonical L y = Inr z" for y z
  proof -
    have "json_ok y" using o y(1) by (auto simp: list_all_iff)
    from write_canonical_lead [OF y(2) L this] obtain c q where "z = c # q" "lead c < 8" by auto
    then show ?thesis by (auto simp: lead_def is_ascii_digit_def byte_of_def)
  qed
  moreover have "join '','' ts @ CHR '']'' # r = join '','' us @ CHR '']'' # r'" using w(3) t by simp
  ultimately show ?thesis
    by (intro joined_unique [OF x _ t(1,3) o(2), of "CHR '']''"]) simp_all
qed

lemma object_unique:
  assumes L: "escape_ok L" and x: "list_all (\<lambda>kv. self_delimiting (write_canonical L) json_ok (snd kv)) m"
    and o: "json_ok (JObj m)" "json_ok (JObj m')"
    and w: "write_canonical L (JObj m) = Inr s" "write_canonical L (JObj m') = Inr t" "s @ r = t @ r'"
  shows "m = m' \<and> r = r'"
proof -
  let ?f = "\<lambda>kv. rbind (write_canonical L (snd kv)) (\<lambda>t. Inr (json_escape L (fst kv) @ '':'' @ t))"
  have ok: "list_all (\<lambda>kv. json_ok (snd kv)) m'" "sort_key fst m = m" "sort_key fst m' = m'"
    using o by (simp_all add: bt_inv_sort)
  obtain ts us where t: "rmap ?f m = Inr ts" "s = ''{'' @ join '','' ts @ ''}''"
    "rmap ?f m' = Inr us" "t = ''{'' @ join '','' us @ ''}''"
    using w(1,2) ok(2,3) by (auto simp: rbind_Inr_iff [where r = "rmap _ _"])
  have "list_all (self_delimiting ?f (\<lambda>kv. json_ok (snd kv))) m"
    using x member_self_delimiting [OF L] by (auto simp: list_all_iff)
  moreover have "z \<noteq> [] \<and> hd z \<noteq> CHR ''}''" if "?f kv = Inr z" for kv z
    using that escape_ok_quote [OF L, of "fst kv"] unfolding rbind_Inr_iff by auto
  moreover have "join '','' ts @ CHR ''}'' # r = join '','' us @ CHR ''}'' # r'" using w(3) t by simp
  ultimately show ?thesis
    by (intro joined_unique [OF _ _ t(1,3) ok(1), of "CHR ''}''"]) simp_all
qed

lemma write_canonical_self_delimiting:
  assumes "escape_ok L" "json_ok v"
  shows "self_delimiting (write_canonical L) json_ok v"
  using assms(2)
proof (induction v rule: measure_induct_rule [of size])
  case (less v)
  show ?case unfolding self_delimiting_def
  proof (intro allI impI, elim conjE)
    fix w s t r r'
    assume h: "json_ok w" "write_canonical L v = Inr s" "write_canonical L w = Inr t" "s @ r = t @ r'"
      "delim r" "delim r'"
    have f: "form v = form w" by (rule same_form [OF h(2-4) assms(1) less.prems h(1)])
    then show "v = w \<and> r = r'"
    proof (cases rule: same_form_cases)
      case 1
      with h show ?thesis by simp
    next
      case (2 n)
      then obtain n' where "w = JNum n'" by blast
      with 2 h f less.prems show ?thesis using write_number_unique [of n s n' t r r'] by simp
    next
      case (3 x)
      then obtain x' where "w = JStr x'" by blast
      with 3 h show ?thesis using escape_ok_split [OF assms(1), of x r x' r'] by auto
    next
      case (4 xs)
      then obtain ys where w: "w = JArr ys" by blast
      have "list_all (self_delimiting (write_canonical L) json_ok) xs"
        using less.IH less.prems 4(1) by (auto simp: list_all_iff less_Suc_eq_le size_list_estimation')
      then show ?thesis
        using array_unique [OF assms(1), of xs ys s t r r'] h less.prems 4(1) w by simp
    next
      case (5 m)
      then obtain m' where w: "w = JObj m'" by blast
      have "size (snd kv) < size v" if "kv \<in> set m" for kv
        using 5(1) that by (cases kv) (auto simp: less_Suc_eq_le intro: size_list_estimation')
      then have "list_all (\<lambda>kv. self_delimiting (write_canonical L) json_ok (snd kv)) m"
        using less.IH less.prems 5(1) by (simp add: list_all_iff)
      then show ?thesis
        using object_unique [OF assms(1), of m m' s t r r'] h less.prems 5(1) w by simp
    qed
  qed
qed

text \<open>Exactly the values whose numbers are safe integers have a canonical form.\<close>

fun safe_numbers :: "json \<Rightarrow> bool" where
  "safe_numbers (JNum (PosInt n)) = (n \<le> json_safe_integer_max)"
| "safe_numbers (JNum (NegInt i)) = (nat \<bar>i\<bar> \<le> json_safe_integer_max)"
| "safe_numbers (JNum (Float w)) = False"
| "safe_numbers (JArr xs) = list_all safe_numbers xs"
| "safe_numbers (JObj m) = list_all (\<lambda>kv. safe_numbers (snd kv)) m"
| "safe_numbers _ = True"

lemma write_canonical_ok: "is_ok (write_canonical L v) \<longleftrightarrow> safe_numbers v"
proof (induction L v rule: write_canonical.induct)
  case (4 L n)
  then show ?case by (cases n) auto
next
  case (6 L xs)
  then show ?case by (simp add: rmap_total list_all_iff)
next
  case (7 L m)
  then show ?case by (simp add: rmap_total list_all_iff)
qed simp_all

text \<open>
  C11. Canonical JSON determines its value: two values with the same canonical text are equal,
  so that a digest or an authentication code over the text is one over the value; and the
  rendering fails exactly on a number that is no integer or leaves the safe range.
\<close>

theorem canonical_json_injective:
  assumes "escape_ok L" "json_ok v" "json_ok w"
  shows "(canonical_json L v = Inr s \<and> canonical_json L w = Inr s \<longrightarrow> v = w) \<and>
    (is_ok (canonical_json L v) \<longleftrightarrow> safe_numbers v)"
  using self_delimitingD [OF write_canonical_self_delimiting [OF assms(1,2)] assms(3), of s s "[]" "[]"]
  by (simp add: canonical_json_def delim_def write_canonical_ok)

lemma sample_quote_unique: "sample_quote s @ r = sample_quote s' @ r' \<Longrightarrow> s = s'"
proof (induction s arbitrary: s')
  case Nil
  then show ?case by (cases s') (auto split: if_splits)
next
  case (Cons c s)
  then show ?case by (cases s') (auto split: if_splits)
qed

lemma sample_escape_ok: "escape_ok sample_lib"
  using sample_quote_unique by (auto simp: escape_ok_def sample_lib_def)

theorem canonical_json_injective_witness:
  "canonical_json sample_lib (JObj [(''a'', JArr [JNum (PosInt 10), JNull])]) \<noteq>
     canonical_json sample_lib (JObj [(''a'', JArr [JNum (PosInt 1), JNum (PosInt 0), JNull])]) \<and>
   is_ok (canonical_json sample_lib (JObj [(''a'', JArr [JNum (PosInt 10), JNull])]))"
  (is "canonical_json _ ?v \<noteq> canonical_json _ ?w \<and> _")
proof -
  have ok: "json_ok ?v" "json_ok ?w" "safe_numbers ?v"
    by (simp_all add: bt_inv_def u64_max_def json_safe_integer_max_def)
  from canonical_json_injective [OF sample_escape_ok ok(1,2)] ok(3)
  have i: "canonical_json sample_lib ?v = Inr s \<and> canonical_json sample_lib ?w = Inr s \<longrightarrow> ?v = ?w"
    and t: "is_ok (canonical_json sample_lib ?v)" for s
    by blast+
  from t obtain s where "canonical_json sample_lib ?v = Inr s" by (auto simp: is_ok_iff)
  with i [of s] t show ?thesis by auto
qed

end
