(* ===== verification/Web_Ids.thy ===== *)
theory Web_Ids
  imports Web_Json
begin

text \<open>
  Identifiers, limits and room links of the web transfer service: the first part of
  \<^verbatim>\<open>src/src/web_transfer.rs\<close> (constants, \<^verbatim>\<open>parse_hex_id\<close>, the identifier types,
  \<^verbatim>\<open>WebTransferLimits\<close>) and the room link codec of \<^verbatim>\<open>src/src/web_transfer_protocol.rs\<close>.

  An identifier is its bytes; the types of \<^verbatim>\<open>define_web_id!\<close> differ only in their width, and
  their text is the lowercase hex of the bytes.
\<close>

section \<open>Constants\<close>

definition web_transfer_protocol_version :: nat where "web_transfer_protocol_version = 1"
definition room_link_seed_bytes :: nat where "room_link_seed_bytes = 16"
definition room_link_seed_text_bytes :: nat where "room_link_seed_text_bytes = 22"
definition room_id_bytes :: nat where "room_id_bytes = 16"
definition max_manifest_bytes :: nat where "max_manifest_bytes = 256 * 1024"
definition max_control_bytes :: nat where "max_control_bytes = 320 * 1024"
definition chunk_bytes :: nat where "chunk_bytes = 1024 * 1024"
definition max_sdp_bytes :: nat where "max_sdp_bytes = 64 * 1024"
definition max_ice_candidate_bytes :: nat where "max_ice_candidate_bytes = 4 * 1024"
definition max_direct_carriers :: nat where "max_direct_carriers = 8"
definition max_ice_sdp_mid_bytes :: nat where "max_ice_sdp_mid_bytes = 64"
definition max_display_name_chars :: nat where "max_display_name_chars = 48"
definition max_path_bytes :: nat where "max_path_bytes = 4096"
definition max_path_segment_bytes :: nat where "max_path_segment_bytes = 255"

section \<open>Identifiers\<close>

definition lower_hex :: "char \<Rightarrow> bool" where
  "lower_hex b = (is_ascii_digit b \<or> (97 \<le> byte_of b \<and> byte_of b \<le> 102))"

definition parse_hex_id :: "web_lib \<Rightarrow> nat \<Rightarrow> string \<Rightarrow> (proto_error, string) result" where
  "parse_hex_id L n s =
     (if length s \<noteq> n * 2 then Inl BadHex
      else if \<not> list_all lower_hex s then Inl BadHex
      else rbind (ok_or (hex_decode L s) BadHex)
             (\<lambda>raw. if length raw = n then Inr raw else Inl BadHex))"

abbreviation parse_id :: "web_lib \<Rightarrow> string \<Rightarrow> (proto_error, string) result" where
  "parse_id L \<equiv> parse_hex_id L 16"

definition request_id_from_str :: "web_lib \<Rightarrow> string \<Rightarrow> (proto_error, string) result" where
  "request_id_from_str L s =
     (if length s \<noteq> 32 then Inl BadHex
      else if \<not> list_all lower_hex s then Inl BadHex
      else rbind (ok_or (hex_decode L s) BadHex)
             (\<lambda>raw. if length raw = 16 then Inr raw else Inl BadHex))"

definition room_id_is_nonzero :: "string \<Rightarrow> bool" where
  "room_id_is_nonzero b = list_ex (\<lambda>c. byte_of c \<noteq> 0) b"

text \<open>The documented behaviour of the hex crate.\<close>

definition hex_ok :: "web_lib \<Rightarrow> bool" where
  "hex_ok L =
     ((\<forall>b. length (hex_encode L b) = 2 * length b \<and> list_all lower_hex (hex_encode L b) \<and>
           hex_decode L (hex_encode L b) = Some b) \<and>
      (\<forall>s b. list_all lower_hex s \<and> hex_decode L s = Some b \<longrightarrow> hex_encode L b = s) \<and>
      (\<forall>s. even (length s) \<and> list_all lower_hex s \<longrightarrow> hex_decode L s \<noteq> None))"

lemma hex_okD:
  assumes "hex_ok L"
  shows "length (hex_encode L b) = 2 * length b" "list_all lower_hex (hex_encode L b)"
    "hex_decode L (hex_encode L b) = Some b"
    "list_all lower_hex s \<Longrightarrow> hex_decode L s = Some b \<Longrightarrow> hex_encode L b = s"
    "even (length s) \<Longrightarrow> list_all lower_hex s \<Longrightarrow> hex_decode L s \<noteq> None"
  using assms unfolding hex_ok_def by blast+

lemma parse_hex_id_iff:
  assumes "hex_ok L"
  shows "parse_hex_id L n s = Inr b \<longleftrightarrow> length b = n \<and> s = hex_encode L b"
proof
  assume "parse_hex_id L n s = Inr b"
  then show "length b = n \<and> s = hex_encode L b"
    using hex_okD(4) [OF assms, of s b] by (auto simp: parse_hex_id_def result_simps split: if_splits)
next
  assume "length b = n \<and> s = hex_encode L b"
  then show "parse_hex_id L n s = Inr b"
    using hex_okD(1-3) [OF assms, of b] by (simp add: parse_hex_id_def)
qed

lemma parse_hex_id_encode: "hex_ok L \<Longrightarrow> length b = n \<Longrightarrow> parse_hex_id L n (hex_encode L b) = Inr b"
  by (simp add: parse_hex_id_iff)

lemma parse_hex_id_length: "parse_hex_id L n s = Inr b \<Longrightarrow> length b = n"
  by (auto simp: parse_hex_id_def result_simps split: if_splits)

lemma request_id_from_str_eq: "request_id_from_str L s = parse_hex_id L 16 s"
  by (simp add: request_id_from_str_def parse_hex_id_def)

lemma hex_encode_inj: "hex_ok L \<Longrightarrow> hex_encode L a = hex_encode L b \<longleftrightarrow> a = b"
  by (metis hex_okD(3) option.inject)

section \<open>Limits\<close>

record web_transfer_limits =
  max_rooms :: nat
  max_peers_global :: nat
  max_peers_per_room :: nat
  max_offers_per_peer :: nat
  max_entries_per_offer :: nat
  max_offer_bytes :: nat
  max_metadata_per_room_bytes :: nat
  max_metadata_total_bytes :: nat
  max_transfers_per_peer :: nat
  max_relays_global :: nat
  relay_rate_bytes_per_s :: nat
  owner_grace_secs :: nat
  direct_carriers :: nat

definition limits_default :: web_transfer_limits where
  "limits_default = \<lparr>
     max_rooms = 1024, max_peers_global = 4096, max_peers_per_room = 32,
     max_offers_per_peer = 64, max_entries_per_offer = 10000,
     max_offer_bytes = 1099511627776, max_metadata_per_room_bytes = 16777216,
     max_metadata_total_bytes = 268435456, max_transfers_per_peer = 8,
     max_relays_global = 256, relay_rate_bytes_per_s = 104857600,
     owner_grace_secs = 60, direct_carriers = 8\<rparr>"

definition min_owner_grace_secs :: nat where "min_owner_grace_secs = 5"
definition max_owner_grace_secs :: nat where "max_owner_grace_secs = 600"

datatype limits_error =
    ZeroLimit string
  | BadOwnerGrace nat
  | BadDirectCarriers nat
  | TotalBelowRoom nat nat
  | DoesNotFit string

text \<open>\<^verbatim>\<open>usize\<close> is 64 bits wide.\<close>

definition limits_validate :: "web_transfer_limits \<Rightarrow> (limits_error, unit) result" where
  "limits_validate l =
     (let nonzero =
        [(''max_rooms'', max_rooms l), (''max_peers_global'', max_peers_global l),
         (''max_peers_per_room'', max_peers_per_room l),
         (''max_offers_per_peer'', max_offers_per_peer l),
         (''max_entries_per_offer'', max_entries_per_offer l),
         (''max_offer_bytes'', max_offer_bytes l),
         (''max_metadata_per_room_bytes'', max_metadata_per_room_bytes l),
         (''max_metadata_total_bytes'', max_metadata_total_bytes l),
         (''max_transfers_per_peer'', max_transfers_per_peer l),
         (''max_relays_global'', max_relays_global l)]
      in rbind (rmap (\<lambda>(name, v). ensure (v \<noteq> 0) (ZeroLimit name)) nonzero) (\<lambda>_.
         rbind (ensure (min_owner_grace_secs \<le> owner_grace_secs l \<and>
                        owner_grace_secs l \<le> max_owner_grace_secs)
                  (BadOwnerGrace (owner_grace_secs l))) (\<lambda>_.
         rbind (ensure (1 \<le> direct_carriers l \<and> direct_carriers l \<le> max_direct_carriers)
                  (BadDirectCarriers (direct_carriers l))) (\<lambda>_.
         rbind (ensure (max_metadata_per_room_bytes l \<le> max_metadata_total_bytes l)
                  (TotalBelowRoom (max_metadata_total_bytes l) (max_metadata_per_room_bytes l))) (\<lambda>_.
         rbind (rmap (\<lambda>(name, v). ensure (v \<le> u64_max) (DoesNotFit name))
                  (nonzero @ [(''owner_grace_secs'', owner_grace_secs l)])) (\<lambda>_.
         ensure (relay_rate_bytes_per_s l \<le> u64_max) (DoesNotFit ''relay rate'')))))))"

lemma limits_validate_ok:
  assumes "limits_validate l = Inr ()"
  shows "0 < max_rooms l" "0 < max_peers_global l" "0 < max_peers_per_room l"
    "0 < max_offers_per_peer l" "0 < max_entries_per_offer l" "0 < max_offer_bytes l"
    "0 < max_transfers_per_peer l" "0 < max_relays_global l"
    "5 \<le> owner_grace_secs l" "owner_grace_secs l \<le> 600"
    "1 \<le> direct_carriers l" "direct_carriers l \<le> 8"
    "0 < max_metadata_per_room_bytes l" "max_metadata_per_room_bytes l \<le> max_metadata_total_bytes l"
  using assms
  by (simp_all add: limits_validate_def Let_def result_simps min_owner_grace_secs_def
      max_owner_grace_secs_def max_direct_carriers_def)

lemma limits_default_valid: "limits_validate limits_default = Inr ()"
  by (simp add: limits_validate_def limits_default_def Let_def min_owner_grace_secs_def
      max_owner_grace_secs_def max_direct_carriers_def u64_max_def)

section \<open>Room links\<close>

definition room_link_hkdf_salt :: string where "room_link_hkdf_salt = ''bore-web-transfer-link-v1''"
definition room_link_room_id_info :: string where
  "room_link_room_id_info = ''bore-web-transfer-room-id-v1''"
definition room_link_member_token_info :: string where
  "room_link_member_token_info = ''bore-web-transfer-member-token-v1''"
definition room_link_room_key_info :: string where
  "room_link_room_key_info = ''bore-web-transfer-room-key-v1''"

record room_link_material =
  material_room_id :: string
  material_member_token :: string
  material_room_key :: string

definition encode_room_link_seed :: "web_lib \<Rightarrow> string \<Rightarrow> string" where
  "encode_room_link_seed L seed = base64url_encode L seed"

definition seed_char :: "char \<Rightarrow> bool" where
  "seed_char b = (is_ascii_alphanumeric b \<or> b = CHR ''-'' \<or> b = CHR ''_'')"

datatype seed_error = InvalidSeed

definition decode_room_link_seed :: "web_lib \<Rightarrow> string \<Rightarrow> (seed_error, string) result" where
  "decode_room_link_seed L v =
     (if length v \<noteq> room_link_seed_text_bytes \<or> \<not> list_all seed_char v then Inl InvalidSeed
      else rbind (ok_or (base64url_decode L v) InvalidSeed) (\<lambda>decoded.
           if length decoded \<noteq> room_link_seed_bytes then Inl InvalidSeed
           else if encode_room_link_seed L decoded \<noteq> v then Inl InvalidSeed
           else Inr decoded))"

definition hkdf32 :: "web_lib \<Rightarrow> string \<Rightarrow> string \<Rightarrow> string \<Rightarrow> string" where
  "hkdf32 L ikm salt info = hkdf_sha256 L ikm salt info"

definition derive_room_link_material :: "web_lib \<Rightarrow> string \<Rightarrow> room_link_material" where
  "derive_room_link_material L seed =
     (let room_id_full = hkdf32 L seed room_link_hkdf_salt room_link_room_id_info;
          member_token = hkdf32 L seed room_link_hkdf_salt room_link_member_token_info;
          room_key = hkdf32 L seed room_link_hkdf_salt room_link_room_key_info
      in \<lparr>material_room_id = take room_id_bytes room_id_full,
          material_member_token = member_token,
          material_room_key = room_key\<rparr>)"

text \<open>
  The documented behaviour of unpadded Base64URL on the sixteen bytes of a seed: 22
  characters of the alphabet, decoded to the bytes they encode.
\<close>

definition base64_ok :: "web_lib \<Rightarrow> bool" where
  "base64_ok L = (\<forall>b. length b = 16 \<longrightarrow> length (base64url_encode L b) = 22 \<and>
     list_all seed_char (base64url_encode L b) \<and> base64url_decode L (base64url_encode L b) = Some b)"

text \<open>
  C32. Every identifier and every room link has exactly one spelling: the parsers accept the
  text their printer writes for bytes of the right width, and nothing else, so comparing
  texts, hashes of texts or bytes comes to the same.
\<close>

theorem identifiers_have_one_spelling:
  assumes "hex_ok L" "base64_ok L"
  shows "(parse_hex_id L n s = Inr b \<longleftrightarrow> length b = n \<and> s = hex_encode L b) \<and>
    (request_id_from_str L s = Inr b \<longleftrightarrow> length b = 16 \<and> s = hex_encode L b) \<and>
    (decode_room_link_seed L s = Inr b \<longleftrightarrow> length b = 16 \<and> s = encode_room_link_seed L b)"
proof -
  have "decode_room_link_seed L s = Inr b" if "length b = 16 \<and> s = encode_room_link_seed L b"
    using that assms(2)
    by (simp add: base64_ok_def decode_room_link_seed_def encode_room_link_seed_def
        room_link_seed_text_bytes_def room_link_seed_bytes_def)
  moreover have "length b = 16 \<and> s = encode_room_link_seed L b" if "decode_room_link_seed L s = Inr b"
    using that
    by (auto simp: decode_room_link_seed_def result_simps room_link_seed_bytes_def split: if_splits)
  ultimately show ?thesis
    using parse_hex_id_iff [OF assms(1)] by (auto simp: request_id_from_str_eq)
qed

lemma nibble_hex:
  assumes "n < 16"
  shows "nibble_value (hex_nibble n) = Some n" "lower_hex (hex_nibble n)"
  using assms by (auto simp: nibble_value_def hex_nibble_def lower_hex_def is_ascii_digit_def)

lemma nibble_value_lower:
  assumes "lower_hex c"
  shows "\<exists>n. nibble_value c = Some n \<and> n < 16 \<and> hex_nibble n = c"
proof -
  have "\<exists>n. nibble_value c = Some n \<and> n < 16 \<and> byte_of (hex_nibble n) = byte_of c"
    using assms by (auto simp: nibble_value_def lower_hex_def is_ascii_digit_def hex_nibble_def)
  then show ?thesis by simp
qed

lemma sample_hex_roundtrip:
  "length (sample_hex_encode b) = 2 * length b \<and> list_all lower_hex (sample_hex_encode b) \<and>
     sample_hex_decode (sample_hex_encode b) = Some b"
proof (induction b)
  case (Cons c b)
  have "byte_of c div 16 < 16" "byte_of c mod 16 < 16"
    using byte_of_less [of c] by (simp_all add: less_mult_imp_div_less del: byte_of_less)
  moreover have "char_of (16 * (byte_of c div 16) + byte_of c mod 16) = c"
    by (simp add: byte_of_def)
  ultimately show ?case using Cons by (simp add: nibble_hex)
qed simp

lemma sample_hex_canonical:
  "list_all lower_hex s \<Longrightarrow> sample_hex_decode s = Some b \<Longrightarrow> sample_hex_encode b = s"
proof (induction s arbitrary: b rule: sample_hex_decode.induct)
  case (3 c d s)
  then obtain h l where "nibble_value c = Some h" "h < 16" "hex_nibble h = c"
    "nibble_value d = Some l" "l < 16" "hex_nibble l = d"
    using nibble_value_lower [of c] nibble_value_lower [of d] by auto
  then show ?case using 3 by (auto split: option.splits)
qed simp_all

lemma sample_hex_total: "even (length s) \<Longrightarrow> list_all lower_hex s \<Longrightarrow> sample_hex_decode s \<noteq> None"
proof (induction s rule: sample_hex_decode.induct)
  case (3 c d s)
  then obtain h l where "nibble_value c = Some h" "nibble_value d = Some l"
    using nibble_value_lower [of c] nibble_value_lower [of d] by auto
  then show ?case using 3 by auto
qed simp_all

lemma sample_hex_ok: "hex_ok sample_lib"
  using sample_hex_roundtrip sample_hex_canonical sample_hex_total
  by (simp add: hex_ok_def sample_lib_def)

lemma sextet:
  assumes "d < 64"
  shows "sextet_value (sextet_char d) = d" "seed_char (sextet_char d)"
proof -
  have b: "byte_of (sextet_char d) = (if d < 26 then 65 + d else if d < 52 then 71 + d
     else if d < 62 then d - 4 else if d = 62 then 45 else 95)"
    using assms by (simp add: sextet_char_def)
  consider "d < 26" | "26 \<le> d" "d < 52" | "52 \<le> d" "d < 62" | "d = 62" | "d = 63" using assms by linarith
  then show "sextet_value (sextet_char d) = d"
    by cases (use b in \<open>auto simp: sextet_value_def\<close>)
  have dash: "byte_of CHR ''-'' = 45" "byte_of CHR ''_'' = 95" by (simp_all add: byte_of_def)
  have "sextet_char d = CHR ''-''" if "d = 62"
    using that b dash by (simp flip: byte_of_inj)
  moreover have "sextet_char d = CHR ''_''" if "d = 63"
    using that b dash by (simp flip: byte_of_inj)
  ultimately show "seed_char (sextet_char d)"
    using b assms by (cases "d < 62"; cases "d = 63") (auto simp: seed_char_def text_simps)
qed

lemma sample_base64_ok: "base64_ok sample_lib"
proof -
  have "sample_base64_decode (sample_base64_encode b) = Some b" if b: "length b = 16" for b
  proof -
    let ?n = "16 * from_be_bytes b"
    have "from_be_bytes b < 256 ^ 16" using from_be_bytes_less [of b] b by simp
    then have "?n < 64 ^ 22" by simp
    moreover have "map (sextet_value \<circ> sextet_char) (be_digits 64 22 ?n) = be_digits 64 22 ?n"
      by (rule map_idI) (simp add: be_digits_less sextet)
    ultimately show ?thesis
      using to_from_be_bytes [OF b]
      by (simp add: sample_base64_decode_def sample_base64_encode_def be_val_be_digits del: be_digits.simps)
  qed
  moreover have "list_all seed_char (sample_base64_encode b)" for b
    using sextet(2) be_digits_less [of 64]
    by (auto simp: sample_base64_encode_def list_all_iff simp del: be_digits.simps)
  ultimately show ?thesis
    by (simp add: base64_ok_def sample_lib_def sample_base64_encode_def del: be_digits.simps)
qed

lemmas sample_laws = sample_hex_ok sample_base64_ok sample_escape_ok

theorem identifiers_have_one_spelling_witness:
  "parse_hex_id sample_lib 2 (hex_encode sample_lib ''ab'') = Inr ''ab'' \<and>
   decode_room_link_seed sample_lib (encode_room_link_seed sample_lib ''0123456789abcdef'') =
     Inr ''0123456789abcdef''"
  using identifiers_have_one_spelling [OF sample_hex_ok sample_base64_ok] by simp

end
