(* ===== verification/Web_Envelope.thy ===== *)
theory Web_Envelope
  imports Web_Ids
begin

text \<open>
  Control envelopes of \<^verbatim>\<open>src/src/web_transfer_protocol.rs\<close>: the tables of message types and
  error codes, the checks every message passes, and the builders of the envelopes the server
  sends. A builder ends in \<^verbatim>\<open>canonical_json(..).expect(..)\<close>; its panic is the \<open>Inl\<close> of the
  builder here.
\<close>

section \<open>Tables\<close>

definition client_types :: "string list" where
  "client_types = [''hello'', ''ping'', ''peer.rename'', ''offer.publish'', ''offer.withdraw'',
     ''transfer.request'', ''transfer.source_ready'', ''transfer.reject'', ''rtc.offer'',
     ''rtc.answer'', ''rtc.ice'', ''transfer.direct_ready'', ''transfer.direct_failed'',
     ''transfer.cancel'', ''transfer.progress'', ''transfer.complete'']"


definition error_codes :: "string list" where
  "error_codes = [''UNSUPPORTED_VERSION'', ''ROOM_UNAVAILABLE'', ''UNAUTHORIZED'',
     ''INVALID_MESSAGE'', ''RATE_LIMITED'', ''LIMIT_EXCEEDED'', ''OFFER_NOT_FOUND'',
     ''OFFER_CHANGED'', ''TRANSFER_NOT_FOUND'', ''NOT_PARTICIPANT'', ''SOURCE_OFFLINE'',
     ''SOURCE_CHANGED'', ''DIRECT_FAILED'', ''RELAY_BUSY'', ''STORAGE_QUOTA'', ''CANCELLED'',
     ''INTERNAL'', ''STALE_ATTEMPT'']"

definition is_known_error_code :: "string \<Rightarrow> bool" where
  "is_known_error_code code = (code \<in> set error_codes)"

definition client_type_requires_request_id :: "string \<Rightarrow> bool" where
  "client_type_requires_request_id typ = (typ \<noteq> ''hello'' \<and> typ \<noteq> ''ping'')"

section \<open>Parsing\<close>

record parsed_envelope =
  env_typ :: string
  env_request_id :: "string option"
  env_body :: json

text \<open>The loops that refuse the first key outside a list.\<close>

definition check_keys :: "jmap \<Rightarrow> string list \<Rightarrow> (proto_error, unit) result" where
  "check_keys obj allowed =
     (case find (\<lambda>k. k \<notin> set allowed) (map fst obj) of
        None \<Rightarrow> Inr ()
      | Some k \<Rightarrow> Inl (UnknownField k))"

definition need_str :: "jmap \<Rightarrow> string \<Rightarrow> (proto_error, string) result" where
  "need_str obj f = ok_or (Option.bind (map_of obj f) as_str) (NeedsField f)"

definition need_u64 :: "jmap \<Rightarrow> string \<Rightarrow> (proto_error, nat) result" where
  "need_u64 obj f = ok_or (Option.bind (map_of obj f) as_u64) (NeedsField f)"

fun is_object :: "json \<Rightarrow> bool" where
  "is_object (JObj m) = True"
| "is_object _ = False"

definition parse_envelope ::
  "web_lib \<Rightarrow> string \<Rightarrow> string list \<Rightarrow> (proto_error, parsed_envelope) result" where
  "parse_envelope L raw known =
     (if max_control_bytes < length raw then Inl TooLarge
      else rbind (parse_json_no_duplicate_keys L raw) (\<lambda>v.
           rbind (ok_or (as_object v) NotObject) (\<lambda>obj.
           rbind (check_keys obj [''v'', ''type'', ''requestId'', ''body'']) (\<lambda>_.
           rbind (need_u64 obj ''v'') (\<lambda>version.
           rbind (ensure (version = web_transfer_protocol_version) (BadVersion version)) (\<lambda>_.
           rbind (need_str obj ''type'') (\<lambda>typ.
           rbind (ensure (typ \<in> set known) (UnknownType typ)) (\<lambda>_.
           rbind (case map_of obj ''requestId'' of
                    None \<Rightarrow> Inr None
                  | Some w \<Rightarrow>
                      rbind (ok_or (as_str w) (NeedsField ''requestId'')) (\<lambda>s.
                      rbind (request_id_from_str L s) (\<lambda>i. Inr (Some i)))) (\<lambda>request_id.
           rbind (ok_or (map_of obj ''body'') (NeedsField ''body'')) (\<lambda>body.
           rbind (ensure (is_object body) (BadField ''body'')) (\<lambda>_.
           Inr \<lparr>env_typ = typ, env_request_id = request_id, env_body = body\<rparr>)))))))))))"

definition parse_client_envelope :: "web_lib \<Rightarrow> string \<Rightarrow> (proto_error, parsed_envelope) result" where
  "parse_client_envelope L raw =
     rbind (parse_envelope L raw client_types) (\<lambda>env.
       let needs = client_type_requires_request_id (env_typ env)
       in if needs \<and> env_request_id env = None then Inl NeedsRequestId
          else if \<not> needs \<and> env_request_id env \<noteq> None then Inl UnexpectedRequestId
          else Inr env)"


section \<open>Building\<close>

definition envelope_top :: "web_lib \<Rightarrow> string \<Rightarrow> string option \<Rightarrow> jmap \<Rightarrow> json" where
  "envelope_top L typ request_id body =
     JObj (bt_of ([(''body'', JObj body)]
       @ (case request_id of None \<Rightarrow> [] | Some i \<Rightarrow> [(''requestId'', JStr (hex_encode L i))])
       @ [(''type'', JStr typ), (''v'', JNum (PosInt web_transfer_protocol_version))]))"

definition server_envelope ::
  "web_lib \<Rightarrow> string \<Rightarrow> string option \<Rightarrow> jmap \<Rightarrow> (proto_error, string) result" where
  "server_envelope L typ request_id body = canonical_json L (envelope_top L typ request_id body)"

definition ack_envelope :: "web_lib \<Rightarrow> string \<Rightarrow> json option \<Rightarrow> (proto_error, string) result" where
  "ack_envelope L request_id res =
     server_envelope L ''ack'' (Some request_id)
       (bt_of ([(''requestId'', JStr (hex_encode L request_id))]
          @ (case res of None \<Rightarrow> [] | Some r \<Rightarrow> [(''result'', r)])))"

definition known_code :: "string \<Rightarrow> string" where
  "known_code code = (if is_known_error_code code then code else ''INTERNAL'')"

definition error_body :: "string \<Rightarrow> string option \<Rightarrow> jmap" where
  "error_body code message =
     [(''code'', JStr (known_code code))]
     @ (case message of None \<Rightarrow> [] | Some m \<Rightarrow> [(''message'', JStr m)])"

definition error_envelope ::
  "web_lib \<Rightarrow> string \<Rightarrow> string \<Rightarrow> string option \<Rightarrow> (proto_error, string) result" where
  "error_envelope L request_id code message =
     server_envelope L ''error'' (Some request_id)
       (bt_of ((''requestId'', JStr (hex_encode L request_id)) # error_body code message))"

definition error_envelope_anon ::
  "web_lib \<Rightarrow> string \<Rightarrow> string option \<Rightarrow> (proto_error, string) result" where
  "error_envelope_anon L code message =
     server_envelope L ''error'' None (bt_of (error_body code message))"

section \<open>Round trip\<close>

lemma check_keys_iff: "check_keys obj allowed = Inr u \<longleftrightarrow> fst ` set obj \<subseteq> set allowed"
proof (cases "find (\<lambda>k. k \<notin> set allowed) (map fst obj)")
  case None
  then have "fst ` set obj \<subseteq> set allowed" by (auto simp: find_None_iff)
  then show ?thesis using None by (cases u) (simp add: check_keys_def)
next
  case (Some k)
  then have "k \<in> fst ` set obj" "k \<notin> set allowed" by (auto simp: find_Some_iff)
  then show ?thesis using Some by (auto simp: check_keys_def)
qed

lemma check_keys_bt_of [simp]:
  "fst ` set kvs \<subseteq> set allowed \<Longrightarrow> check_keys (bt_of kvs) allowed = Inr ()"
  by (simp add: check_keys_iff)

lemma safe_numbers_obj: "list_all (\<lambda>kv. safe_numbers (snd kv)) kvs \<Longrightarrow> safe_numbers (JObj (bt_of kvs))"
  using set_bt_of [of kvs] by (auto simp: list_all_iff)


lemma server_envelope_ok: "safe_numbers (JObj body) \<Longrightarrow> is_ok (server_envelope L typ rid body)"
  unfolding server_envelope_def canonical_json_def write_canonical_ok envelope_top_def
  by (rule safe_numbers_obj)
    (auto simp: web_transfer_protocol_version_def json_safe_integer_max_def split: option.split)



lemma hex_ok_json_text [simp]: "hex_ok (L\<lparr>json_text := f\<rparr>) = hex_ok L"
  by (simp add: hex_ok_def)





end
