(* ===== verification/Web_Bodies.thy ===== *)
theory Web_Bodies
  imports Web_Envelope "HOL-Library.Product_Lexorder" "HOL-Library.Multiset"
begin

text \<open>
  The bodies of the client's control messages in \<^verbatim>\<open>src/src/web_transfer_protocol.rs\<close>, one
  record and one parser per message. A parser checks the type, the request id and the keys
  of the body before it reads a field, and reads the fields in the order of the source, so
  that the first failing check decides the error.
\<close>

section \<open>Shared checks\<close>

definition check_body_keys :: "json \<Rightarrow> string list \<Rightarrow> (proto_error, jmap) result" where
  "check_body_keys body allowed =
     rbind (ok_or (as_object body) NotObject) (\<lambda>obj.
     rbind (check_keys obj allowed) (\<lambda>_. Inr obj))"

text \<open>The opening of every parser of a mutation: type, request id, keys.\<close>

definition open_body ::
  "parsed_envelope \<Rightarrow> string \<Rightarrow> string list \<Rightarrow> (proto_error, string \<times> jmap) result" where
  "open_body env typ allowed =
     (if env_typ env \<noteq> typ then Inl (WrongType typ)
      else rbind (ok_or (env_request_id env) NeedsRequestId) (\<lambda>request_id.
           rbind (check_body_keys (env_body env) allowed) (\<lambda>obj. Inr (request_id, obj))))"

definition need_id :: "web_lib \<Rightarrow> jmap \<Rightarrow> string \<Rightarrow> (proto_error, string) result" where
  "need_id L obj f = rbind (need_str obj f) (parse_id L)"

definition need_digest :: "web_lib \<Rightarrow> jmap \<Rightarrow> string \<Rightarrow> (proto_error, string) result" where
  "need_digest L obj f = rbind (need_str obj f) (parse_hex_id L 32)"

definition parse_decimal_u64 :: "string \<Rightarrow> (proto_error, nat) result" where
  "parse_decimal_u64 s =
     (if s = [] \<or> \<not> list_all is_ascii_digit s then Inl BadDecimal
      else if 1 < length s \<and> starts_with ''0'' s then Inl BadDecimal
      else ok_or (parse_u64 s) BadDecimal)"

section \<open>Session messages\<close>

record hello_body =
  hello_member_token :: string
  hello_display_name :: "string option"

definition parse_hello_body :: "parsed_envelope \<Rightarrow> (proto_error, hello_body) result" where
  "parse_hello_body env =
     (if env_typ env \<noteq> ''hello'' then Inl (WrongType ''hello'')
      else rbind (check_body_keys (env_body env) [''memberToken'', ''displayName'']) (\<lambda>obj.
           rbind (need_str obj ''memberToken'') (\<lambda>token.
           rbind (case map_of obj ''displayName'' of
                    None \<Rightarrow> Inr None
                  | Some v \<Rightarrow> rbind (ok_or (as_str v) (BadField ''displayName'')) (\<lambda>n. Inr (Some n)))
             (\<lambda>name. Inr \<lparr>hello_member_token = token, hello_display_name = name\<rparr>))))"

definition parse_ping_body :: "parsed_envelope \<Rightarrow> (proto_error, unit) result" where
  "parse_ping_body env =
     (if env_typ env \<noteq> ''ping'' then Inl (WrongType ''ping'')
      else rbind (check_body_keys (env_body env) []) (\<lambda>_. Inr ()))"

definition parse_rename_body :: "parsed_envelope \<Rightarrow> (proto_error, string \<times> string) result" where
  "parse_rename_body env =
     rbind (open_body env ''peer.rename'' [''displayName'']) (\<lambda>(request_id, obj).
     rbind (need_str obj ''displayName'') (\<lambda>name. Inr (request_id, name)))"

section \<open>Requests\<close>

definition max_resume_ranges :: nat where "max_resume_ranges = 4096"

record resume_descriptor =
  verified_ranges :: "(nat \<times> nat) list"
  output_length :: nat

record transfer_request_body =
  req_offer_id :: string
  req_entry_ids :: "string list"
  req_selection_digest :: string
  req_mode :: string
  req_resume :: "resume_descriptor option"

definition parse_entry_ids :: "jmap \<Rightarrow> (proto_error, string list) result" where
  "parse_entry_ids obj =
     rbind (ok_or (Option.bind (map_of obj ''entryIds'') as_array) (NeedsField ''entryIds'')) (\<lambda>raw.
     rbind (rmap (\<lambda>entry.
              rbind (ok_or (as_str entry) (BadField ''entryIds'')) (\<lambda>i.
              rbind (parse_decimal_u64 i) (\<lambda>_. Inr i))) raw) (\<lambda>ids.
     let sorted_ids = sort ids
     in if sorted_ids \<noteq> ids then Inl NotSorted
        else let deduped = remdups_adj sorted_ids
             in if length deduped \<noteq> length ids then Inl NotUnique else Inr deduped))"

fun windows_overlap :: "(nat \<times> nat) list \<Rightarrow> bool" where
  "windows_overlap (a # b # rs) = (fst b < snd a \<or> windows_overlap (b # rs))"
| "windows_overlap _ = False"

definition parse_range :: "json \<Rightarrow> (proto_error, nat \<times> nat) result" where
  "parse_range r =
     rbind (ok_or (as_array r) (BadField ''verifiedRanges'')) (\<lambda>pair.
     rbind (ensure (length pair = 2) (BadField ''verifiedRanges'')) (\<lambda>_.
     rbind (ok_or (as_u64 (pair ! 0)) (BadField ''verifiedRanges'')) (\<lambda>lo.
     rbind (ok_or (as_u64 (pair ! 1)) (BadField ''verifiedRanges'')) (\<lambda>hi.
     rbind (ensure (lo < hi) (OutOfRange ''verifiedRanges'')) (\<lambda>_.
     Inr (lo, hi))))))"

definition parse_verified_ranges :: "json \<Rightarrow> (proto_error, (nat \<times> nat) list) result" where
  "parse_verified_ranges v =
     rbind (ok_or (as_array v) (BadField ''verifiedRanges'')) (\<lambda>raw.
     rbind (ensure (length raw \<le> max_resume_ranges) (OutOfRange ''verifiedRanges'')) (\<lambda>_.
     rbind (rmap parse_range raw) (\<lambda>ranges.
     let ranges = sort ranges
     in if windows_overlap ranges then Inl Overlap else Inr ranges)))"

definition parse_resume_descriptor :: "json \<Rightarrow> (proto_error, resume_descriptor) result" where
  "parse_resume_descriptor v =
     rbind (ok_or (as_object v) NotObject) (\<lambda>obj.
     rbind (check_keys obj [''verifiedRanges'', ''outputLength'']) (\<lambda>_.
     rbind (ok_or (map_of obj ''verifiedRanges'') (NeedsField ''verifiedRanges'')) (\<lambda>raw.
     rbind (parse_verified_ranges raw) (\<lambda>ranges.
     rbind (need_u64 obj ''outputLength'') (\<lambda>n.
     Inr \<lparr>verified_ranges = ranges, output_length = n\<rparr>)))))"

definition parse_transfer_request_body ::
  "web_lib \<Rightarrow> parsed_envelope \<Rightarrow> (proto_error, string \<times> transfer_request_body) result" where
  "parse_transfer_request_body L env =
     rbind (open_body env ''transfer.request''
              [''offerId'', ''entryIds'', ''selectionDigest'', ''mode'', ''resume'']) (\<lambda>(request_id, obj).
     rbind (need_id L obj ''offerId'') (\<lambda>offer.
     rbind (parse_entry_ids obj) (\<lambda>ids.
     rbind (need_digest L obj ''selectionDigest'') (\<lambda>dig.
     rbind (need_str obj ''mode'') (\<lambda>m.
     rbind (case map_of obj ''resume'' of
              None \<Rightarrow> Inr None
            | Some v \<Rightarrow> rbind (parse_resume_descriptor v) (\<lambda>r. Inr (Some r))) (\<lambda>resume.
     Inr (request_id, \<lparr>req_offer_id = offer, req_entry_ids = ids, req_selection_digest = dig,
                        req_mode = m, req_resume = resume\<rparr>)))))))"

record source_ready_body =
  ready_transfer_id :: string
  ready_attempt_id :: string
  ready_selection_digest :: string

definition parse_source_ready_body ::
  "web_lib \<Rightarrow> parsed_envelope \<Rightarrow> (proto_error, string \<times> source_ready_body) result" where
  "parse_source_ready_body L env =
     rbind (open_body env ''transfer.source_ready''
              [''transferId'', ''attemptId'', ''selectionDigest'']) (\<lambda>(request_id, obj).
     rbind (need_id L obj ''transferId'') (\<lambda>transfer.
     rbind (need_id L obj ''attemptId'') (\<lambda>attempt.
     rbind (need_digest L obj ''selectionDigest'') (\<lambda>dig.
     Inr (request_id, \<lparr>ready_transfer_id = transfer, ready_attempt_id = attempt,
                        ready_selection_digest = dig\<rparr>)))))"

definition parse_reject_body ::
  "web_lib \<Rightarrow> parsed_envelope \<Rightarrow> (proto_error, string \<times> string) result" where
  "parse_reject_body L env =
     rbind (open_body env ''transfer.reject'' [''transferId'', ''code'']) (\<lambda>(request_id, obj).
     rbind (need_id L obj ''transferId'') (\<lambda>transfer. Inr (request_id, transfer)))"

definition parse_cancel_body ::
  "web_lib \<Rightarrow> parsed_envelope \<Rightarrow> (proto_error, string \<times> string) result" where
  "parse_cancel_body L env =
     rbind (open_body env ''transfer.cancel'' [''transferId'', ''reason'']) (\<lambda>(request_id, obj).
     rbind (need_id L obj ''transferId'') (\<lambda>transfer. Inr (request_id, transfer)))"

record complete_body =
  complete_transfer_id :: string
  complete_attempt_id :: string
  complete_root :: string

definition parse_complete_body ::
  "web_lib \<Rightarrow> parsed_envelope \<Rightarrow> (proto_error, string \<times> complete_body) result" where
  "parse_complete_body L env =
     rbind (open_body env ''transfer.complete'' [''transferId'', ''attemptId'', ''root'']) (\<lambda>(request_id, obj).
     rbind (need_id L obj ''transferId'') (\<lambda>transfer.
     rbind (need_id L obj ''attemptId'') (\<lambda>attempt.
     rbind (need_digest L obj ''root'') (\<lambda>root.
     Inr (request_id, \<lparr>complete_transfer_id = transfer, complete_attempt_id = attempt,
                        complete_root = root\<rparr>)))))"

record progress_body =
  progress_transfer_id :: string
  progress_attempt_id :: string
  progress_received_bytes :: nat

definition parse_progress_body ::
  "web_lib \<Rightarrow> parsed_envelope \<Rightarrow> (proto_error, string \<times> progress_body) result" where
  "parse_progress_body L env =
     rbind (open_body env ''transfer.progress''
              [''transferId'', ''attemptId'', ''receivedBytes'']) (\<lambda>(request_id, obj).
     rbind (need_id L obj ''transferId'') (\<lambda>transfer.
     rbind (need_id L obj ''attemptId'') (\<lambda>attempt.
     rbind (case map_of obj ''receivedBytes'' of
              Some (JStr text) \<Rightarrow> ok_or (parse_u64 text) (BadField ''receivedBytes'')
            | Some v \<Rightarrow> ok_or (as_u64 v) (BadField ''receivedBytes'')
            | None \<Rightarrow> Inl (NeedsField ''receivedBytes'')) (\<lambda>n.
     Inr (request_id, \<lparr>progress_transfer_id = transfer, progress_attempt_id = attempt,
                        progress_received_bytes = n\<rparr>)))))"

record publish_body =
  publish_offer_id :: string
  publish_manifest :: json
  publish_mac :: string

definition check_manifest_byte_cap :: "nat \<Rightarrow> (proto_error, unit) result" where
  "check_manifest_byte_cap compact_len = ensure (compact_len \<le> max_manifest_bytes) TooLarge"

definition parse_publish_body ::
  "web_lib \<Rightarrow> parsed_envelope \<Rightarrow> (proto_error, string \<times> publish_body) result" where
  "parse_publish_body L env =
     rbind (open_body env ''offer.publish'' [''offerId'', ''manifest'', ''mac'']) (\<lambda>(request_id, obj).
     rbind (need_id L obj ''offerId'') (\<lambda>offer.
     rbind (ok_or (map_of obj ''manifest'') (NeedsField ''manifest'')) (\<lambda>manifest.
     rbind (ensure (is_object manifest) (BadField ''manifest'')) (\<lambda>_.
     rbind (need_digest L obj ''mac'') (\<lambda>mac.
     Inr (request_id, \<lparr>publish_offer_id = offer, publish_manifest = manifest, publish_mac = mac\<rparr>))))))"

definition parse_withdraw_body ::
  "web_lib \<Rightarrow> parsed_envelope \<Rightarrow> (proto_error, string \<times> string) result" where
  "parse_withdraw_body L env =
     rbind (open_body env ''offer.withdraw'' [''offerId'']) (\<lambda>(request_id, obj).
     rbind (need_id L obj ''offerId'') (\<lambda>offer. Inr (request_id, offer)))"

section \<open>Signalling of direct attempts\<close>

definition parse_carrier :: "jmap \<Rightarrow> (proto_error, nat) result" where
  "parse_carrier obj =
     (case map_of obj ''carrier'' of
        None \<Rightarrow> Inr 0
      | Some v \<Rightarrow>
          rbind (ok_or (as_u64 v) (BadField ''carrier'')) (\<lambda>index.
          rbind (ensure (index < max_direct_carriers) (OutOfRange ''carrier'')) (\<lambda>_. Inr index)))"

record rtc_sdp_body =
  sdp_transfer_id :: string
  sdp_attempt_id :: string
  sdp :: string
  sdp_carrier :: nat

definition parse_rtc_sdp_body ::
  "web_lib \<Rightarrow> parsed_envelope \<Rightarrow> string \<Rightarrow> (proto_error, string \<times> rtc_sdp_body) result" where
  "parse_rtc_sdp_body L env typ =
     rbind (open_body env typ [''transferId'', ''attemptId'', ''sdp'', ''carrier'']) (\<lambda>(request_id, obj).
     rbind (need_id L obj ''transferId'') (\<lambda>transfer.
     rbind (need_id L obj ''attemptId'') (\<lambda>attempt.
     rbind (need_str obj ''sdp'') (\<lambda>text.
     rbind (ensure (text \<noteq> [] \<and> length text \<le> max_sdp_bytes) (OutOfRange ''sdp'')) (\<lambda>_.
     rbind (parse_carrier obj) (\<lambda>c.
     Inr (request_id, \<lparr>sdp_transfer_id = transfer, sdp_attempt_id = attempt, sdp = text,
                        sdp_carrier = c\<rparr>)))))))"

record rtc_ice_body =
  ice_transfer_id :: string
  ice_attempt_id :: string
  candidate :: "string option"
  sdp_mid :: "string option"
  sdp_m_line_index :: "nat option"
  ice_carrier :: nat

definition is_end_of_candidates :: "rtc_ice_body \<Rightarrow> bool" where
  "is_end_of_candidates b = (candidate b = None)"

definition parse_candidate :: "json option \<Rightarrow> (proto_error, string option) result" where
  "parse_candidate v =
     (case v of
        None \<Rightarrow> Inr None
      | Some JNull \<Rightarrow> Inr None
      | Some (JStr s) \<Rightarrow>
          if s = [] then Inr None
          else if max_ice_candidate_bytes < length s then Inl (OutOfRange ''candidate'')
          else Inr (Some s)
      | Some _ \<Rightarrow> Inl (BadField ''candidate''))"

definition parse_sdp_mid :: "json option \<Rightarrow> (proto_error, string option) result" where
  "parse_sdp_mid v =
     (case v of
        None \<Rightarrow> Inr None
      | Some JNull \<Rightarrow> Inr None
      | Some (JStr s) \<Rightarrow>
          if max_ice_sdp_mid_bytes < length s then Inl (OutOfRange ''sdpMid'') else Inr (Some s)
      | Some _ \<Rightarrow> Inl (BadField ''sdpMid''))"

definition parse_m_line_index :: "json option \<Rightarrow> (proto_error, nat option) result" where
  "parse_m_line_index v =
     (case v of
        None \<Rightarrow> Inr None
      | Some JNull \<Rightarrow> Inr None
      | Some w \<Rightarrow>
          rbind (ok_or (as_u64 w) (BadField ''sdpMLineIndex'')) (\<lambda>n.
          if n \<le> u16_max then Inr (Some n) else Inl (OutOfRange ''sdpMLineIndex'')))"

definition parse_rtc_ice_body ::
  "web_lib \<Rightarrow> parsed_envelope \<Rightarrow> (proto_error, string \<times> rtc_ice_body) result" where
  "parse_rtc_ice_body L env =
     rbind (open_body env ''rtc.ice''
              [''transferId'', ''attemptId'', ''candidate'', ''sdpMid'', ''sdpMLineIndex'', ''carrier''])
       (\<lambda>(request_id, obj).
     rbind (need_id L obj ''transferId'') (\<lambda>transfer.
     rbind (need_id L obj ''attemptId'') (\<lambda>attempt.
     rbind (parse_candidate (map_of obj ''candidate'')) (\<lambda>cand.
     rbind (parse_sdp_mid (map_of obj ''sdpMid'')) (\<lambda>mid.
     rbind (parse_m_line_index (map_of obj ''sdpMLineIndex'')) (\<lambda>index.
     let (mid, index) = (if cand = None then (None, None) else (mid, index))
     in rbind (parse_carrier obj) (\<lambda>c.
        Inr (request_id, \<lparr>ice_transfer_id = transfer, ice_attempt_id = attempt, candidate = cand,
                           sdp_mid = mid, sdp_m_line_index = index, ice_carrier = c\<rparr>))))))))"

record direct_ready_body =
  dready_transfer_id :: string
  dready_attempt_id :: string
  dready_resume_ranges :: "(nat \<times> nat) list"

text \<open>The optional \<^verbatim>\<open>resumeRanges\<close> of the two messages below.\<close>

definition parse_resume_ranges :: "jmap \<Rightarrow> (proto_error, (nat \<times> nat) list) result" where
  "parse_resume_ranges obj =
     (case map_of obj ''resumeRanges'' of
        None \<Rightarrow> Inr []
      | Some JNull \<Rightarrow> Inr []
      | Some v \<Rightarrow> parse_verified_ranges v)"

definition parse_direct_ready_body ::
  "web_lib \<Rightarrow> parsed_envelope \<Rightarrow> (proto_error, string \<times> direct_ready_body) result" where
  "parse_direct_ready_body L env =
     rbind (open_body env ''transfer.direct_ready''
              [''transferId'', ''attemptId'', ''resumeRanges'']) (\<lambda>(request_id, obj).
     rbind (need_id L obj ''transferId'') (\<lambda>transfer.
     rbind (need_id L obj ''attemptId'') (\<lambda>attempt.
     rbind (parse_resume_ranges obj) (\<lambda>ranges.
     Inr (request_id, \<lparr>dready_transfer_id = transfer, dready_attempt_id = attempt,
                        dready_resume_ranges = ranges\<rparr>)))))"

definition direct_fail_reasons :: "string list" where
  "direct_fail_reasons = [''ice-failed'', ''channel-closed'', ''send-error'', ''unsupported'',
     ''timeout'', ''protocol'', ''unknown'']"

definition direct_fail_reason :: "string option \<Rightarrow> string" where
  "direct_fail_reason raw =
     (case raw of
        Some v \<Rightarrow>
          (case find (\<lambda>known. known = v) direct_fail_reasons of
             Some known \<Rightarrow> known
           | None \<Rightarrow> ''unknown'')
      | None \<Rightarrow> ''unknown'')"

record direct_failed_body =
  dfailed_transfer_id :: string
  dfailed_attempt_id :: string
  dfailed_reason :: string
  dfailed_verified_ranges :: "(nat \<times> nat) list"

definition parse_direct_failed_body ::
  "web_lib \<Rightarrow> parsed_envelope \<Rightarrow> (proto_error, string \<times> direct_failed_body) result" where
  "parse_direct_failed_body L env =
     rbind (open_body env ''transfer.direct_failed''
              [''transferId'', ''attemptId'', ''reason'', ''resumeRanges'']) (\<lambda>(request_id, obj).
     rbind (need_id L obj ''transferId'') (\<lambda>transfer.
     rbind (need_id L obj ''attemptId'') (\<lambda>attempt.
     let reason = direct_fail_reason (Option.bind (map_of obj ''reason'') as_str)
     in rbind (parse_resume_ranges obj) (\<lambda>ranges.
        Inr (request_id, \<lparr>dfailed_transfer_id = transfer, dfailed_attempt_id = attempt,
                           dfailed_reason = reason, dfailed_verified_ranges = ranges\<rparr>)))))"

section \<open>Ranges in normal form\<close>

definition disjoint_ranges :: "(nat \<times> nat) list \<Rightarrow> bool" where
  "disjoint_ranges rs =
     (list_all (\<lambda>r. fst r < snd r) rs \<and> sorted_wrt (\<lambda>a b. snd a \<le> fst b) rs)"

lemma disjoint_ranges_iff:
  "list_all (\<lambda>r. fst r < snd r) rs \<Longrightarrow>
     (\<not> windows_overlap rs \<longleftrightarrow> sorted_wrt (\<lambda>a b. snd a \<le> fst b) rs)"
proof (induction rs rule: windows_overlap.induct)
  case (1 a b rs)
  have "snd a \<le> fst c" if "snd a \<le> fst b" "snd b \<le> fst c" for c
    using 1(2) that by simp
  with 1 show ?case by (auto simp: not_less)
qed simp_all

lemma disjoint_ranges_sort: "disjoint_ranges rs \<Longrightarrow> sort rs = rs"
proof (rule sorted_sort_id)
  assume r: "disjoint_ranges rs"
  have "a \<le> b" if "a \<in> set rs" "b \<in> set rs" "snd a \<le> fst b" for a b
    using r that by (auto simp: disjoint_ranges_def list_all_iff less_eq_prod_def)
  then show "sorted rs"
    using r unfolding disjoint_ranges_def
    by (auto intro: sorted_wrt_mono_rel [of rs "\<lambda>a b. snd a \<le> fst b"])
qed

lemma parse_range_less: "parse_range v = Inr r \<Longrightarrow> fst r < snd r"
  by (auto simp: parse_range_def result_simps)

lemma parse_verified_ranges_iff:
  "parse_verified_ranges (JArr xs) = Inr rs \<longleftrightarrow>
     length xs \<le> max_resume_ranges \<and> list_all (\<lambda>x. is_ok (parse_range x)) xs \<and>
     rs = sort (map (\<lambda>x. projr (parse_range x)) xs) \<and> disjoint_ranges rs"
proof -
  have "list_all (\<lambda>r. fst r < snd r) (sort (map (\<lambda>x. projr (parse_range x)) xs))"
    if "list_all (\<lambda>x. is_ok (parse_range x)) xs"
    using that parse_range_less by (fastforce simp: list_all_iff is_ok_iff)
  then show ?thesis
    using disjoint_ranges_iff
    by (auto simp: parse_verified_ranges_def result_simps rmap_Inr_map Let_def disjoint_ranges_def)
qed

lemma parse_verified_ranges_permutation:
  assumes "mset xs = mset ys" "parse_verified_ranges (JArr xs) = Inr rs"
  shows "parse_verified_ranges (JArr ys) = Inr rs"
proof -
  have "sort (map f xs) = sort (map f ys)" for f :: "json \<Rightarrow> nat \<times> nat"
    by (rule properties_for_sort) (use assms(1) in simp_all)
  moreover have "set xs = set ys" "length xs = length ys"
    using assms(1) mset_eq_setD mset_eq_length by blast+
  ultimately show ?thesis using assms(2) by (auto simp: parse_verified_ranges_iff list_all_iff)
qed

end
