(* ===== verification/Web_Messages.thy ===== *)
theory Web_Messages
  imports Web_Bodies
begin

text \<open>
  The envelopes the server sends (\<^verbatim>\<open>src/src/web_transfer_protocol.rs\<close>), one builder per
  message. The body is given to \<open>server_envelope\<close> as the map of the insertions of the source,
  in their order.
\<close>

abbreviation jnat :: "nat \<Rightarrow> json" where "jnat n \<equiv> JNum (PosInt n)"

abbreviation jid :: "web_lib \<Rightarrow> string \<Rightarrow> json" where "jid L i \<equiv> JStr (hex_encode L i)"

text \<open>The ranges as an array of pairs, and the field left out when there are none.\<close>

definition ranges_json :: "(nat \<times> nat) list \<Rightarrow> json" where
  "ranges_json rs = JArr (map (\<lambda>(lo, hi). JArr [jnat lo, jnat hi]) rs)"

definition resume_ranges_field :: "(nat \<times> nat) list \<Rightarrow> jmap" where
  "resume_ranges_field rs = (if rs = [] then [] else [(''resumeRanges'', ranges_json rs)])"

definition insert_carrier :: "nat \<Rightarrow> jmap" where
  "insert_carrier c = (if c \<noteq> 0 then [(''carrier'', jnat c)] else [])"

section \<open>Direct attempts\<close>

record direct_start =
  start_transfer_id :: string
  start_attempt_id :: string
  start_attempt_number :: nat
  start_role :: string
  start_ice_servers :: "string list"
  start_deadline_ms :: nat
  start_carriers :: nat
  start_upgrade :: bool

definition transfer_direct_start_envelope ::
  "web_lib \<Rightarrow> direct_start \<Rightarrow> (proto_error, string) result" where
  "transfer_direct_start_envelope L st =
     server_envelope L ''transfer.direct_start'' None
       (bt_of ([(''transferId'', jid L (start_transfer_id st)),
                (''attemptId'', jid L (start_attempt_id st)),
                (''attemptNumber'', jnat (start_attempt_number st)),
                (''role'', JStr (start_role st)),
                (''iceServers'', JArr (map JStr (start_ice_servers st))),
                (''deadlineMs'', jnat (start_deadline_ms st))]
          @ (if 1 < start_carriers st then [(''carriers'', jnat (start_carriers st))] else [])
          @ (if start_upgrade st then [(''upgrade'', JBool True)] else [])))"

definition rtc_sdp_json :: "web_lib \<Rightarrow> rtc_sdp_body \<Rightarrow> jmap" where
  "rtc_sdp_json L b =
     bt_of ([(''transferId'', jid L (sdp_transfer_id b)), (''attemptId'', jid L (sdp_attempt_id b)),
             (''sdp'', JStr (sdp b))] @ insert_carrier (sdp_carrier b))"

definition rtc_sdp_envelope ::
  "web_lib \<Rightarrow> string \<Rightarrow> rtc_sdp_body \<Rightarrow> (proto_error, string) result" where
  "rtc_sdp_envelope L typ b = server_envelope L typ None (rtc_sdp_json L b)"

definition rtc_ice_json :: "web_lib \<Rightarrow> rtc_ice_body \<Rightarrow> jmap" where
  "rtc_ice_json L b =
     bt_of ([(''transferId'', jid L (ice_transfer_id b)), (''attemptId'', jid L (ice_attempt_id b)),
             (''candidate'', case candidate b of Some v \<Rightarrow> JStr v | None \<Rightarrow> JNull)]
       @ (case sdp_mid b of Some mid \<Rightarrow> [(''sdpMid'', JStr mid)] | None \<Rightarrow> [])
       @ (case sdp_m_line_index b of Some i \<Rightarrow> [(''sdpMLineIndex'', jnat i)] | None \<Rightarrow> [])
       @ insert_carrier (ice_carrier b))"

definition rtc_ice_envelope :: "web_lib \<Rightarrow> rtc_ice_body \<Rightarrow> (proto_error, string) result" where
  "rtc_ice_envelope L b = server_envelope L ''rtc.ice'' None (rtc_ice_json L b)"

definition transfer_direct_failed_envelope ::
  "web_lib \<Rightarrow> string \<Rightarrow> string \<Rightarrow> string \<Rightarrow> (nat \<times> nat) list \<Rightarrow> (proto_error, string) result" where
  "transfer_direct_failed_envelope L transfer attempt reason ranges =
     server_envelope L ''transfer.direct_failed'' None
       (bt_of ([(''transferId'', jid L transfer), (''attemptId'', jid L attempt),
                (''reason'', JStr (direct_fail_reason (Some reason)))]
          @ resume_ranges_field ranges))"

section \<open>Transfers\<close>

definition transfer_incoming_envelope ::
  "web_lib \<Rightarrow> string \<Rightarrow> string \<Rightarrow> string \<Rightarrow> string \<Rightarrow> string \<Rightarrow> nat option \<Rightarrow>
     (proto_error, string) result" where
  "transfer_incoming_envelope L transfer offer from_peer attempt m entry =
     server_envelope L ''transfer.incoming'' None
       (bt_of ([(''transferId'', jid L transfer), (''offerId'', jid L offer),
                (''fromPeerId'', jid L from_peer), (''attemptId'', jid L attempt), (''mode'', JStr m)]
          @ (case entry of Some i \<Rightarrow> [(''entryId'', JStr (show_nat i))] | None \<Rightarrow> [])))"

definition transfer_relay_ticket_envelope ::
  "web_lib \<Rightarrow> string \<Rightarrow> string \<Rightarrow> string \<Rightarrow> (proto_error, string) result" where
  "transfer_relay_ticket_envelope L transfer attempt ticket_hex =
     server_envelope L ''transfer.relay_ticket'' None
       (bt_of [(''transferId'', jid L transfer), (''attemptId'', jid L attempt), (''ticket'', JStr ticket_hex)])"

definition transfer_progress_envelope ::
  "web_lib \<Rightarrow> string \<Rightarrow> string \<Rightarrow> nat \<Rightarrow> string \<Rightarrow> (proto_error, string) result" where
  "transfer_progress_envelope L transfer attempt received path =
     server_envelope L ''transfer.progress'' None
       (bt_of [(''transferId'', jid L transfer), (''attemptId'', jid L attempt),
               (''receivedBytes'', JStr (show_nat received)), (''path'', JStr path)])"

definition transfer_path_commit_envelope ::
  "web_lib \<Rightarrow> string \<Rightarrow> string \<Rightarrow> string \<Rightarrow> (nat \<times> nat) list \<Rightarrow> (proto_error, string) result" where
  "transfer_path_commit_envelope L transfer attempt path ranges =
     server_envelope L ''transfer.path_commit'' None
       (bt_of ([(''transferId'', jid L transfer), (''attemptId'', jid L attempt), (''path'', JStr path)]
          @ resume_ranges_field ranges))"

definition transfer_cancelled_envelope ::
  "web_lib \<Rightarrow> string \<Rightarrow> string \<Rightarrow> (proto_error, string) result" where
  "transfer_cancelled_envelope L transfer by_peer =
     server_envelope L ''transfer.cancelled'' None
       (bt_of [(''transferId'', jid L transfer), (''byPeerId'', jid L by_peer)])"

definition transfer_completed_envelope ::
  "web_lib \<Rightarrow> string \<Rightarrow> string \<Rightarrow> (proto_error, string) result" where
  "transfer_completed_envelope L transfer root =
     server_envelope L ''transfer.completed'' None
       (bt_of [(''transferId'', jid L transfer), (''root'', jid L root)])"

section \<open>Sessions and snapshots\<close>

definition welcome_envelope ::
  "web_lib \<Rightarrow> string \<Rightarrow> string \<Rightarrow> string \<Rightarrow> web_transfer_limits \<Rightarrow> string list \<Rightarrow> bool \<Rightarrow>
     (proto_error, string) result" where
  "welcome_envelope L peer room name l ice relay_only =
     (let limits_map = bt_of
        [(''max_rooms'', jnat (max_rooms l)), (''max_peers_global'', jnat (max_peers_global l)),
         (''max_peers_per_room'', jnat (max_peers_per_room l)),
         (''max_offers_per_peer'', jnat (max_offers_per_peer l)),
         (''max_entries_per_offer'', jnat (max_entries_per_offer l)),
         (''max_offer_bytes'', jnat (max_offer_bytes l)),
         (''max_metadata_per_room_bytes'', jnat (max_metadata_per_room_bytes l)),
         (''max_metadata_total_bytes'', jnat (max_metadata_total_bytes l)),
         (''max_transfers_per_peer'', jnat (max_transfers_per_peer l)),
         (''max_relays_global'', jnat (max_relays_global l)),
         (''relay_rate_bytes_per_s'', jnat (relay_rate_bytes_per_s l)),
         (''owner_grace_secs'', jnat (owner_grace_secs l))]
      in server_envelope L ''welcome'' None
           (bt_of [(''peerId'', jid L peer), (''roomId'', jid L room), (''displayName'', JStr name),
                   (''limits'', JObj limits_map), (''iceServers'', JArr (map JStr ice)),
                   (''relayOnly'', JBool relay_only)]))"

definition pong_envelope :: "web_lib \<Rightarrow> (proto_error, string) result" where
  "pong_envelope L = server_envelope L ''pong'' None []"

definition room_closed_envelope :: "web_lib \<Rightarrow> string \<Rightarrow> (proto_error, string) result" where
  "room_closed_envelope L reason =
     server_envelope L ''room_closed'' None (bt_of [(''reason'', JStr reason)])"

definition snapshot_begin_envelope :: "web_lib \<Rightarrow> nat \<Rightarrow> (proto_error, string) result" where
  "snapshot_begin_envelope L revision =
     server_envelope L ''snapshot.begin'' None (bt_of [(''revision'', jnat revision)])"

definition snapshot_end_envelope :: "web_lib \<Rightarrow> nat \<Rightarrow> (proto_error, string) result" where
  "snapshot_end_envelope L revision =
     server_envelope L ''snapshot.end'' None (bt_of [(''revision'', jnat revision)])"

text \<open>The bodies of \<^verbatim>\<open>snapshot.peer\<close> and \<^verbatim>\<open>peer.joined\<close> have the same insertions.\<close>

definition peer_json :: "web_lib \<Rightarrow> string \<Rightarrow> string option \<Rightarrow> nat \<Rightarrow> jmap" where
  "peer_json L peer name revision =
     bt_of ([(''peerId'', jid L peer)]
       @ (case name of Some n \<Rightarrow> [(''displayName'', JStr n)] | None \<Rightarrow> [])
       @ [(''revision'', jnat revision)])"

definition snapshot_peer_envelope ::
  "web_lib \<Rightarrow> string \<Rightarrow> string option \<Rightarrow> nat \<Rightarrow> (proto_error, string) result" where
  "snapshot_peer_envelope L peer name revision =
     server_envelope L ''snapshot.peer'' None (peer_json L peer name revision)"

definition peer_joined_envelope ::
  "web_lib \<Rightarrow> string \<Rightarrow> string option \<Rightarrow> nat \<Rightarrow> (proto_error, string) result" where
  "peer_joined_envelope L peer name revision =
     server_envelope L ''peer.joined'' None (peer_json L peer name revision)"

definition peer_renamed_envelope ::
  "web_lib \<Rightarrow> string \<Rightarrow> string \<Rightarrow> nat \<Rightarrow> (proto_error, string) result" where
  "peer_renamed_envelope L peer name revision =
     server_envelope L ''peer.renamed'' None
       (bt_of [(''peerId'', jid L peer), (''displayName'', JStr name), (''revision'', jnat revision)])"

definition peer_left_envelope :: "web_lib \<Rightarrow> string \<Rightarrow> nat \<Rightarrow> (proto_error, string) result" where
  "peer_left_envelope L peer revision =
     server_envelope L ''peer.left'' None
       (bt_of [(''peerId'', jid L peer), (''revision'', jnat revision)])"

definition offer_json :: "web_lib \<Rightarrow> string \<Rightarrow> string \<Rightarrow> json \<Rightarrow> string \<Rightarrow> nat \<Rightarrow> jmap" where
  "offer_json L peer offer manifest mac_hex revision =
     bt_of [(''peerId'', jid L peer), (''offerId'', jid L offer), (''manifest'', manifest),
            (''mac'', JStr mac_hex), (''revision'', jnat revision)]"

definition snapshot_offer_envelope ::
  "web_lib \<Rightarrow> string \<Rightarrow> string \<Rightarrow> json \<Rightarrow> string \<Rightarrow> nat \<Rightarrow> (proto_error, string) result" where
  "snapshot_offer_envelope L peer offer manifest mac_hex revision =
     server_envelope L ''snapshot.offer'' None (offer_json L peer offer manifest mac_hex revision)"

definition offer_added_envelope ::
  "web_lib \<Rightarrow> string \<Rightarrow> string \<Rightarrow> json \<Rightarrow> string \<Rightarrow> nat \<Rightarrow> (proto_error, string) result" where
  "offer_added_envelope L peer offer manifest mac_hex revision =
     server_envelope L ''offer.added'' None (offer_json L peer offer manifest mac_hex revision)"

definition offer_removed_envelope ::
  "web_lib \<Rightarrow> string \<Rightarrow> string \<Rightarrow> nat \<Rightarrow> (proto_error, string) result" where
  "offer_removed_envelope L peer offer revision =
     server_envelope L ''offer.removed'' None
       (bt_of [(''peerId'', jid L peer), (''offerId'', jid L offer), (''revision'', jnat revision)])"

record snapshot_offer =
  snap_peer :: string
  snap_offer :: string
  snap_manifest :: json
  snap_mac_hex :: string

definition snapshot_messages ::
  "web_lib \<Rightarrow> nat \<Rightarrow> (string \<times> string option) list \<Rightarrow> snapshot_offer list \<Rightarrow>
     (proto_error, string list) result" where
  "snapshot_messages L revision peers offers =
     rmap (\<lambda>r. r)
       ([snapshot_begin_envelope L revision]
        @ map (\<lambda>(peer, name). snapshot_peer_envelope L peer name revision) peers
        @ map (\<lambda>x. snapshot_offer_envelope L (snap_peer x) (snap_offer x) (snap_manifest x)
                      (snap_mac_hex x) revision) offers
        @ [snapshot_end_envelope L revision])"

section \<open>Room events\<close>

datatype room_event =
    RoomClosed string
  | PeerJoined string "string option" nat
  | PeerRenamed string string nat
  | PeerLeft string nat
  | OfferAdded string string string string nat
  | OfferRemoved string string nat

text \<open>
  \<^verbatim>\<open>serde_json::from_slice\<close> keeps the last value of a repeated key, as \<^const>\<open>ordered\<close> does;
  an event whose manifest does not parse gives no message.
\<close>

fun room_event_message :: "web_lib \<Rightarrow> room_event \<Rightarrow> (proto_error, string) result option" where
  "room_event_message L (RoomClosed _) = None"
| "room_event_message L (PeerJoined peer name revision) = Some (peer_joined_envelope L peer name revision)"
| "room_event_message L (PeerRenamed peer name revision) = Some (peer_renamed_envelope L peer name revision)"
| "room_event_message L (PeerLeft peer revision) = Some (peer_left_envelope L peer revision)"
| "room_event_message L (OfferAdded peer offer manifest mac revision) =
     map_option (\<lambda>t. offer_added_envelope L peer offer (ordered t) (hex_encode L mac) revision)
       (json_text L manifest)"
| "room_event_message L (OfferRemoved peer offer revision) =
     Some (offer_removed_envelope L peer offer revision)"

section \<open>Ranges round trip\<close>

lemma parse_range_pair: "lo < hi \<Longrightarrow> parse_range (JArr [jnat lo, jnat hi]) = Inr (lo, hi)"
  by (simp add: parse_range_def)

lemma parse_ranges_json:
  assumes "disjoint_ranges rs" "length rs \<le> max_resume_ranges"
  shows "parse_verified_ranges (ranges_json rs) = Inr rs"
proof -
  have "parse_range ((\<lambda>(lo, hi). JArr [jnat lo, jnat hi]) r) = Inr r" if "r \<in> set rs" for r
    using assms(1) that by (cases r) (auto simp: disjoint_ranges_def list_all_iff parse_range_pair)
  then have "map (\<lambda>x. projr (parse_range x)) (map (\<lambda>(lo, hi). JArr [jnat lo, jnat hi]) rs) = rs"
    "list_all (\<lambda>x. is_ok (parse_range x)) (map (\<lambda>(lo, hi). JArr [jnat lo, jnat hi]) rs)"
    by (auto simp: list_all_iff intro!: map_idI)
  then show ?thesis
    using assms unfolding ranges_json_def parse_verified_ranges_iff
    by (simp add: disjoint_ranges_sort)
qed

text \<open>
  C34. The resume ranges a peer reports have one normal form: whatever the order in which they
  are listed, the accepted ranges are the same list of at most 4096 non-empty intervals, in
  increasing order and disjoint; and the server's own rendering of that list is read back to
  it.
\<close>

theorem verified_ranges_normal_form:
  assumes "parse_verified_ranges (JArr xs) = Inr rs"
  shows "length rs \<le> max_resume_ranges \<and> disjoint_ranges rs \<and>
    parse_verified_ranges (ranges_json rs) = Inr rs \<and>
    (\<forall>ys. mset ys = mset xs \<longrightarrow> parse_verified_ranges (JArr ys) = Inr rs)"
proof -
  have "length rs = length xs" "length xs \<le> max_resume_ranges" "disjoint_ranges rs"
    using assms by (auto simp: parse_verified_ranges_iff)
  then have "length rs \<le> max_resume_ranges" "disjoint_ranges rs" by simp_all
  moreover from this have "parse_verified_ranges (ranges_json rs) = Inr rs" by (intro parse_ranges_json)
  moreover have "parse_verified_ranges (JArr ys) = Inr rs" if "mset ys = mset xs" for ys
    using parse_verified_ranges_permutation [OF _ assms] that by simp
  ultimately show ?thesis by blast
qed

theorem verified_ranges_normal_form_witness:
  "parse_verified_ranges (JArr [JArr [jnat 0, jnat 2], JArr [jnat 5, jnat 9]]) = Inr [(0, 2), (5, 9)]"
proof -
  have "parse_verified_ranges (JArr [JArr [jnat 5, jnat 9], JArr [jnat 0, jnat 2]]) = Inr [(0, 2), (5, 9)]"
    by (simp add: parse_verified_ranges_def parse_range_pair max_resume_ranges_def less_eq_prod_def)
  from verified_ranges_normal_form [OF this] show ?thesis by simp
qed

section \<open>Forwarded signalling\<close>

definition ice_ok :: "rtc_ice_body \<Rightarrow> bool" where
  "ice_ok b =
     (length (ice_transfer_id b) = 16 \<and> length (ice_attempt_id b) = 16 \<and>
      (case candidate b of None \<Rightarrow> sdp_mid b = None \<and> sdp_m_line_index b = None
       | Some s \<Rightarrow> s \<noteq> [] \<and> length s \<le> max_ice_candidate_bytes) \<and>
      (\<forall>s. sdp_mid b = Some s \<longrightarrow> length s \<le> max_ice_sdp_mid_bytes) \<and>
      (\<forall>n. sdp_m_line_index b = Some n \<longrightarrow> n \<le> u16_max) \<and>
      ice_carrier b < max_direct_carriers)"

lemma need_id_length: "need_id L obj f = Inr i \<Longrightarrow> length i = 16"
  by (auto simp: need_id_def result_simps parse_hex_id_length)

lemma parse_carrier_bound: "parse_carrier obj = Inr c \<Longrightarrow> c < max_direct_carriers"
  by (auto simp: parse_carrier_def result_simps max_direct_carriers_def split: option.splits)

lemma parse_candidate_ok:
  "parse_candidate v = Inr (Some s) \<Longrightarrow> s \<noteq> [] \<and> length s \<le> max_ice_candidate_bytes"
  by (auto simp: parse_candidate_def split: option.splits json.splits if_splits)

lemma parse_sdp_mid_ok: "parse_sdp_mid v = Inr (Some s) \<Longrightarrow> length s \<le> max_ice_sdp_mid_bytes"
  by (auto simp: parse_sdp_mid_def split: option.splits json.splits if_splits)

lemma parse_m_line_index_ok: "parse_m_line_index v = Inr (Some n) \<Longrightarrow> n \<le> u16_max"
  by (auto simp: parse_m_line_index_def result_simps split: option.splits json.splits if_splits)

lemma parse_rtc_ice_bodyD:
  assumes "parse_rtc_ice_body L env = Inr (i, b)"
  obtains obj mid index where
    "need_id L obj ''transferId'' = Inr (ice_transfer_id b)"
    "need_id L obj ''attemptId'' = Inr (ice_attempt_id b)"
    "parse_carrier obj = Inr (ice_carrier b)"
    "parse_candidate (map_of obj ''candidate'') = Inr (candidate b)"
    "parse_sdp_mid (map_of obj ''sdpMid'') = Inr mid"
    "parse_m_line_index (map_of obj ''sdpMLineIndex'') = Inr index"
    "sdp_mid b = (if candidate b = None then None else mid)"
    "sdp_m_line_index b = (if candidate b = None then None else index)"
proof -
  from assms obtain x transfer attempt cand mid index c where
    o: "need_id L (snd x) ''transferId'' = Inr transfer" "need_id L (snd x) ''attemptId'' = Inr attempt"
      "parse_candidate (map_of (snd x) ''candidate'') = Inr cand"
      "parse_sdp_mid (map_of (snd x) ''sdpMid'') = Inr mid"
      "parse_m_line_index (map_of (snd x) ''sdpMLineIndex'') = Inr index" "parse_carrier (snd x) = Inr c"
    and b: "Inr (fst x, \<lparr>ice_transfer_id = transfer, ice_attempt_id = attempt, candidate = cand,
         sdp_mid = fst (if cand = None then (None, None) else (mid, index)),
         sdp_m_line_index = snd (if cand = None then (None, None) else (mid, index)), ice_carrier = c\<rparr>)
       = (Inr (i, b) :: proto_error + _)"
    unfolding parse_rtc_ice_body_def rbind_Inr_iff split_beta Let_def by (elim exE conjE)
  show thesis using b by (intro that [of "snd x" mid index]) (auto simp: o)
qed

lemma parse_rtc_ice_body_ok:
  assumes "parse_rtc_ice_body L env = Inr (i, b)"
  shows "ice_ok b"
proof (rule parse_rtc_ice_bodyD [OF assms])
  fix obj mid index
  assume t: "need_id L obj ''transferId'' = Inr (ice_transfer_id b)"
    "need_id L obj ''attemptId'' = Inr (ice_attempt_id b)" "parse_carrier obj = Inr (ice_carrier b)"
    and c: "parse_candidate (map_of obj ''candidate'') = Inr (candidate b)"
    and m: "parse_sdp_mid (map_of obj ''sdpMid'') = Inr mid"
      "parse_m_line_index (map_of obj ''sdpMLineIndex'') = Inr index"
    and b: "sdp_mid b = (if candidate b = None then None else mid)"
      "sdp_m_line_index b = (if candidate b = None then None else index)"
  note t' = need_id_length [OF t(1)] need_id_length [OF t(2)] parse_carrier_bound [OF t(3)]
  have "length s \<le> max_ice_sdp_mid_bytes" if "mid = Some s" for s
    using parse_sdp_mid_ok m(1) that by simp
  moreover have "n \<le> u16_max" if "index = Some n" for n
    using parse_m_line_index_ok m(2) that by simp
  moreover have "s \<noteq> [] \<and> length s \<le> max_ice_candidate_bytes" if "candidate b = Some s" for s
    using parse_candidate_ok c that by simp
  ultimately show ?thesis
    using t' b by (cases "candidate b") (simp_all add: ice_ok_def)
qed

lemma open_body_own:
  "fst ` set kvs \<subseteq> set allowed \<Longrightarrow>
     open_body \<lparr>env_typ = typ, env_request_id = Some i, env_body = JObj (bt_of kvs)\<rparr> typ allowed =
       Inr (i, bt_of kvs)"
  by (simp add: open_body_def check_body_keys_def)

lemma map_of_insert_carrier [simp]:
  "map_of (rev (insert_carrier c)) f = (if f = ''carrier'' \<and> c \<noteq> 0 then Some (jnat c) else None)"
  by (simp add: insert_carrier_def)

lemma parse_inserted_carrier:
  "map_of obj ''carrier'' = (if c \<noteq> 0 then Some (jnat c) else None) \<Longrightarrow> c < max_direct_carriers \<Longrightarrow>
     parse_carrier obj = Inr c"
  by (simp add: parse_carrier_def split: if_splits)

lemma rtc_ice_json_fields:
  "map_of (rtc_ice_json L b) ''transferId'' = Some (jid L (ice_transfer_id b))"
  "map_of (rtc_ice_json L b) ''attemptId'' = Some (jid L (ice_attempt_id b))"
  "map_of (rtc_ice_json L b) ''candidate'' = Some (case candidate b of Some v \<Rightarrow> JStr v | None \<Rightarrow> JNull)"
  "map_of (rtc_ice_json L b) ''sdpMid'' = map_option JStr (sdp_mid b)"
  "map_of (rtc_ice_json L b) ''sdpMLineIndex'' = map_option jnat (sdp_m_line_index b)"
  "map_of (rtc_ice_json L b) ''carrier'' = (if ice_carrier b \<noteq> 0 then Some (jnat (ice_carrier b)) else None)"
  by (cases "sdp_mid b"; cases "sdp_m_line_index b";
      simp add: rtc_ice_json_def map_of_bt_of map_add_def)+

lemma rtc_ice_reparse:
  assumes "ice_ok b" "hex_ok L"
  shows "parse_rtc_ice_body L
    \<lparr>env_typ = ''rtc.ice'', env_request_id = Some i, env_body = JObj (rtc_ice_json L b)\<rparr> = Inr (i, b)"
proof -
  have o: "open_body \<lparr>env_typ = ''rtc.ice'', env_request_id = Some i, env_body = JObj (rtc_ice_json L b)\<rparr>
      ''rtc.ice'' [''transferId'', ''attemptId'', ''candidate'', ''sdpMid'', ''sdpMLineIndex'', ''carrier''] =
      Inr (i, rtc_ice_json L b)"
    unfolding rtc_ice_json_def
    by (rule open_body_own) (auto simp: insert_carrier_def split: option.split)
  have n: "need_id L (rtc_ice_json L b) ''transferId'' = Inr (ice_transfer_id b)"
    "need_id L (rtc_ice_json L b) ''attemptId'' = Inr (ice_attempt_id b)"
    using assms by (simp_all add: need_id_def need_str_def rtc_ice_json_fields parse_hex_id_encode ice_ok_def)
  have c: "parse_carrier (rtc_ice_json L b) = Inr (ice_carrier b)"
    by (rule parse_inserted_carrier) (use assms(1) in \<open>simp_all add: rtc_ice_json_fields ice_ok_def\<close>)
  have f: "parse_candidate (Some (case candidate b of Some v \<Rightarrow> JStr v | None \<Rightarrow> JNull)) = Inr (candidate b)"
    "parse_sdp_mid (map_option JStr (sdp_mid b)) = Inr (sdp_mid b)"
    "parse_m_line_index (map_option jnat (sdp_m_line_index b)) = Inr (sdp_m_line_index b)"
    using assms(1)
    by (auto simp: ice_ok_def parse_candidate_def parse_sdp_mid_def parse_m_line_index_def split: option.splits)
  have m: "candidate b = None \<Longrightarrow> sdp_mid b = None \<and> sdp_m_line_index b = None"
    using assms(1) by (simp add: ice_ok_def)
  have "parse_rtc_ice_body L
      \<lparr>env_typ = ''rtc.ice'', env_request_id = Some i, env_body = JObj (rtc_ice_json L b)\<rparr> =
    Inr (i, b\<lparr>sdp_mid := if candidate b = None then None else sdp_mid b,
             sdp_m_line_index := if candidate b = None then None else sdp_m_line_index b\<rparr>)"
    unfolding parse_rtc_ice_body_def by (simp add: o n c f rtc_ice_json_fields)
  then show ?thesis using m by (cases b) auto
qed

definition sdp_ok :: "rtc_sdp_body \<Rightarrow> bool" where
  "sdp_ok b = (length (sdp_transfer_id b) = 16 \<and> length (sdp_attempt_id b) = 16 \<and> sdp b \<noteq> [] \<and>
     length (sdp b) \<le> max_sdp_bytes \<and> sdp_carrier b < max_direct_carriers)"

lemma parse_rtc_sdp_body_ok:
  assumes "parse_rtc_sdp_body L env typ = Inr (i, b)"
  shows "sdp_ok b"
proof -
  from assms obtain x transfer attempt descr u c where
    o: "need_id L (snd x) ''transferId'' = Inr transfer" "need_id L (snd x) ''attemptId'' = Inr attempt"
      "ensure (descr \<noteq> [] \<and> length descr \<le> max_sdp_bytes) (OutOfRange ''sdp'') = Inr u"
      "parse_carrier (snd x) = Inr c"
    and b: "Inr (fst x, \<lparr>sdp_transfer_id = transfer, sdp_attempt_id = attempt, sdp = descr, sdp_carrier = c\<rparr>)
       = (Inr (i, b) :: proto_error + _)"
    unfolding parse_rtc_sdp_body_def rbind_Inr_iff split_beta by (elim exE conjE)
  note need_id_length [OF o(1)] need_id_length [OF o(2)] parse_carrier_bound [OF o(4)]
  with o(3) b show ?thesis by (auto simp: sdp_ok_def ensure_Inr_iff)
qed

lemma rtc_sdp_json_fields:
  "map_of (rtc_sdp_json L b) ''transferId'' = Some (jid L (sdp_transfer_id b))"
  "map_of (rtc_sdp_json L b) ''attemptId'' = Some (jid L (sdp_attempt_id b))"
  "map_of (rtc_sdp_json L b) ''sdp'' = Some (JStr (sdp b))"
  "map_of (rtc_sdp_json L b) ''carrier'' = (if sdp_carrier b \<noteq> 0 then Some (jnat (sdp_carrier b)) else None)"
  by (simp_all add: rtc_sdp_json_def map_of_bt_of map_add_def)

lemma rtc_sdp_reparse:
  assumes "sdp_ok b" "hex_ok L"
  shows "parse_rtc_sdp_body L
    \<lparr>env_typ = typ, env_request_id = Some i, env_body = JObj (rtc_sdp_json L b)\<rparr> typ = Inr (i, b)"
proof -
  have o: "open_body \<lparr>env_typ = typ, env_request_id = Some i, env_body = JObj (rtc_sdp_json L b)\<rparr>
      typ [''transferId'', ''attemptId'', ''sdp'', ''carrier''] = Inr (i, rtc_sdp_json L b)"
    unfolding rtc_sdp_json_def by (rule open_body_own) (auto simp: insert_carrier_def)
  have n: "need_id L (rtc_sdp_json L b) ''transferId'' = Inr (sdp_transfer_id b)"
    "need_id L (rtc_sdp_json L b) ''attemptId'' = Inr (sdp_attempt_id b)"
    "need_str (rtc_sdp_json L b) ''sdp'' = Inr (sdp b)"
    using assms by (simp_all add: need_id_def need_str_def rtc_sdp_json_fields parse_hex_id_encode sdp_ok_def)
  have c: "parse_carrier (rtc_sdp_json L b) = Inr (sdp_carrier b)"
    by (rule parse_inserted_carrier) (use assms(1) in \<open>simp_all add: rtc_sdp_json_fields sdp_ok_def\<close>)
  show ?thesis
    using assms(1) unfolding parse_rtc_sdp_body_def by (simp add: o n c sdp_ok_def)
qed

lemma small_numbers: "n \<le> u16_max \<Longrightarrow> n \<le> json_safe_integer_max"
  "n < max_direct_carriers \<Longrightarrow> n \<le> json_safe_integer_max"
  by (simp_all add: u16_max_def json_safe_integer_max_def max_direct_carriers_def)

lemma rtc_envelopes_build:
  "ice_ok b \<Longrightarrow> is_ok (rtc_ice_envelope L b)" "sdp_ok b' \<Longrightarrow> is_ok (rtc_sdp_envelope L typ b')"
  unfolding rtc_ice_envelope_def rtc_sdp_envelope_def rtc_ice_json_def rtc_sdp_json_def
  by (rule server_envelope_ok, rule safe_numbers_obj,
      force simp: insert_carrier_def ice_ok_def sdp_ok_def small_numbers split: option.splits)+

text \<open>
  C16. Forwarded signalling is what was sent: an accepted ICE candidate or session description
  can always be put in the envelope for the other side, and the body of that envelope,
  parsed again, is the body the sender's message was parsed to. An end-of-candidates marker
  in any of its spellings is forwarded in the one without media fields.
\<close>

theorem signalling_forward_roundtrip:
  assumes "hex_ok L"
  shows "(\<forall>i b. parse_rtc_ice_body L env = Inr (i, b) \<longrightarrow> is_ok (rtc_ice_envelope L b) \<and>
      parse_rtc_ice_body L \<lparr>env_typ = ''rtc.ice'', env_request_id = Some j,
        env_body = JObj (rtc_ice_json L b)\<rparr> = Inr (j, b) \<and>
      (is_end_of_candidates b \<longrightarrow> sdp_mid b = None \<and> sdp_m_line_index b = None)) \<and>
    (\<forall>i b. parse_rtc_sdp_body L env typ = Inr (i, b) \<longrightarrow> is_ok (rtc_sdp_envelope L typ b) \<and>
      parse_rtc_sdp_body L \<lparr>env_typ = typ, env_request_id = Some j,
        env_body = JObj (rtc_sdp_json L b)\<rparr> typ = Inr (j, b))"
proof -
  have "is_end_of_candidates b \<longrightarrow> sdp_mid b = None \<and> sdp_m_line_index b = None" if "ice_ok b" for b
    using that by (auto simp: ice_ok_def is_end_of_candidates_def)
  then show ?thesis
    using parse_rtc_ice_body_ok parse_rtc_sdp_body_ok rtc_ice_reparse [OF _ assms]
      rtc_sdp_reparse [OF _ assms] rtc_envelopes_build by blast
qed

definition sample_id :: string where "sample_id = replicate 16 (CHR ''a'')"

definition sample_hex_id :: string where "sample_hex_id = concat (replicate 16 ''61'')"

lemma sample_ids: "hex_encode sample_lib sample_id = sample_hex_id" "length sample_id = 16"
  by code_simp+

lemma sample_need_id:
  "map_of obj f = Some (JStr sample_hex_id) \<Longrightarrow> need_id sample_lib obj f = Inr sample_id"
  using sample_ids parse_hex_id_encode [OF sample_hex_ok, of sample_id 16]
  by (simp add: need_id_def need_str_def)

theorem signalling_forward_roundtrip_witness:
  "is_ok (rtc_ice_envelope sample_lib \<lparr>ice_transfer_id = sample_id, ice_attempt_id = sample_id,
     candidate = None, sdp_mid = None, sdp_m_line_index = None, ice_carrier = 0\<rparr>)"
proof -
  let ?env = "\<lparr>env_typ = ''rtc.ice'', env_request_id = Some sample_id, env_body = JObj
    [(''attemptId'', JStr sample_hex_id), (''candidate'', JStr []), (''sdpMid'', JStr ''0''),
     (''transferId'', JStr sample_hex_id)]\<rparr>"
  have "parse_rtc_ice_body sample_lib ?env = Inr (sample_id, \<lparr>ice_transfer_id = sample_id,
      ice_attempt_id = sample_id, candidate = None, sdp_mid = None, sdp_m_line_index = None, ice_carrier = 0\<rparr>)"
    by (simp add: parse_rtc_ice_body_def open_body_def check_body_keys_def check_keys_def sample_need_id
        parse_candidate_def parse_sdp_mid_def parse_m_line_index_def parse_carrier_def
        max_ice_sdp_mid_bytes_def)
  with signalling_forward_roundtrip [OF sample_hex_ok, of ?env] show ?thesis by blast
qed

section \<open>Strict bodies\<close>

text \<open>The parsers of mutations, with the type and the keys each of them admits.\<close>

definition void :: "('e, 'a) result \<Rightarrow> ('e, unit) result" where
  "void r = rbind r (\<lambda>_. Inr ())"

definition body_parsers ::
  "web_lib \<Rightarrow> ((parsed_envelope \<Rightarrow> (proto_error, unit) result) \<times> string \<times> string list) list" where
  "body_parsers L =
     [(\<lambda>e. void (parse_rename_body e), ''peer.rename'', [''displayName'']),
      (\<lambda>e. void (parse_publish_body L e), ''offer.publish'', [''offerId'', ''manifest'', ''mac'']),
      (\<lambda>e. void (parse_withdraw_body L e), ''offer.withdraw'', [''offerId'']),
      (\<lambda>e. void (parse_transfer_request_body L e), ''transfer.request'',
         [''offerId'', ''entryIds'', ''selectionDigest'', ''mode'', ''resume'']),
      (\<lambda>e. void (parse_source_ready_body L e), ''transfer.source_ready'',
         [''transferId'', ''attemptId'', ''selectionDigest'']),
      (\<lambda>e. void (parse_reject_body L e), ''transfer.reject'', [''transferId'', ''code'']),
      (\<lambda>e. void (parse_rtc_sdp_body L e ''rtc.offer''), ''rtc.offer'',
         [''transferId'', ''attemptId'', ''sdp'', ''carrier'']),
      (\<lambda>e. void (parse_rtc_sdp_body L e ''rtc.answer''), ''rtc.answer'',
         [''transferId'', ''attemptId'', ''sdp'', ''carrier'']),
      (\<lambda>e. void (parse_rtc_ice_body L e), ''rtc.ice'',
         [''transferId'', ''attemptId'', ''candidate'', ''sdpMid'', ''sdpMLineIndex'', ''carrier'']),
      (\<lambda>e. void (parse_direct_ready_body L e), ''transfer.direct_ready'',
         [''transferId'', ''attemptId'', ''resumeRanges'']),
      (\<lambda>e. void (parse_direct_failed_body L e), ''transfer.direct_failed'',
         [''transferId'', ''attemptId'', ''reason'', ''resumeRanges'']),
      (\<lambda>e. void (parse_cancel_body L e), ''transfer.cancel'', [''transferId'', ''reason'']),
      (\<lambda>e. void (parse_progress_body L e), ''transfer.progress'',
         [''transferId'', ''attemptId'', ''receivedBytes'']),
      (\<lambda>e. void (parse_complete_body L e), ''transfer.complete'',
         [''transferId'', ''attemptId'', ''root''])]"

lemma void_simps [simp]: "void (Inl e) = Inl e" "void (Inr x) = Inr ()"
  by (simp_all add: void_def)

lemma void_rbind: "void (rbind r f) = rbind r (\<lambda>x. void (f x))"
  by (cases r) simp_all

lemma body_parsers_open:
  assumes "(p, typ, allowed) \<in> set (body_parsers L)"
  obtains f where "\<And>env. p env = rbind (open_body env typ allowed) f"
  using assms that unfolding body_parsers_def list.set insert_iff prod.inject empty_iff
  by (elim disjE conjE; simp only: parse_rename_body_def parse_publish_body_def parse_withdraw_body_def
      parse_transfer_request_body_def parse_source_ready_body_def parse_reject_body_def
      parse_rtc_sdp_body_def parse_rtc_ice_body_def parse_direct_ready_body_def
      parse_direct_failed_body_def parse_cancel_body_def parse_progress_body_def
      parse_complete_body_def void_rbind)

text \<open>
  C35. Every parser of a mutation is strict, in one order: a message of another type, one
  without a request id, one whose body is no object and one with a key the message does not
  have are refused with the error that names the first of these, whatever else they hold;
  and the types of the parsers are exactly the client types that need a request id.
\<close>

theorem bodies_are_strict:
  assumes "(p, typ, allowed) \<in> set (body_parsers L)"
  shows "(env_typ env \<noteq> typ \<longrightarrow> p env = Inl (WrongType typ)) \<and>
    (env_typ env = typ \<and> env_request_id env = None \<longrightarrow> p env = Inl NeedsRequestId) \<and>
    (env_typ env = typ \<and> env_request_id env = Some i \<and> \<not> is_object (env_body env) \<longrightarrow>
       p env = Inl NotObject) \<and>
    (env_typ env = typ \<and> env_request_id env = Some i \<and> env_body env = JObj m \<and>
       find (\<lambda>k. k \<notin> set allowed) (map fst m) = Some k \<longrightarrow> p env = Inl (UnknownField k)) \<and>
    typ \<in> set client_types \<and> client_type_requires_request_id typ"
proof (rule body_parsers_open [OF assms])
  fix f assume p: "\<And>env. p env = rbind (open_body env typ allowed) f"
  have "typ \<in> set (map (\<lambda>(p, typ, allowed). typ) (body_parsers L))" using assms by force
  then have "typ \<in> set client_types \<and> client_type_requires_request_id typ"
    by (auto simp: body_parsers_def client_types_def client_type_requires_request_id_def)
  moreover have "as_object (env_body env) = None" if "\<not> is_object (env_body env)"
    using that by (cases "env_body env") simp_all
  ultimately show ?thesis
    by (simp add: p open_body_def check_body_keys_def check_keys_def)
qed

theorem bodies_are_strict_witness:
  "void (parse_withdraw_body sample_lib \<lparr>env_typ = ''offer.withdraw'', env_request_id = Some sample_id,
     env_body = JObj [(''offerId'', JNull), (''x'', JNull)]\<rparr>) = Inl (UnknownField ''x'')"
proof -
  have m: "(\<lambda>e. void (parse_withdraw_body sample_lib e), ''offer.withdraw'', [''offerId''])
      \<in> set (body_parsers sample_lib)"
    by (simp add: body_parsers_def)
  show ?thesis
    by (rule bodies_are_strict [OF m, of _ sample_id "[(''offerId'', JNull), (''x'', JNull)]", THEN conjunct2, THEN conjunct2, THEN conjunct2, THEN conjunct1, THEN mp]) simp
qed

section \<open>Ranges outside the safe integers\<close>

lemma safe_ranges_json:
  "safe_numbers (ranges_json rs) \<longleftrightarrow> list_all (\<lambda>r. fst r \<le> json_safe_integer_max \<and> snd r \<le> json_safe_integer_max) rs"
  by (auto simp: ranges_json_def list_all_iff)

lemma safe_numbers_of_bt:
  assumes "distinct (map fst kvs)"
  shows "safe_numbers (JObj (bt_of kvs)) \<longleftrightarrow> list_all (\<lambda>kv. safe_numbers (snd kv)) kvs"
proof -
  have "map_of (bt_of kvs) = map_of kvs"
    using assms by (intro ext) (simp add: map_of_bt_of map_of_rev_distinct)
  moreover have "distinct (map fst (bt_of kvs))" using bt_inv_bt_of [of kvs] by (simp add: bt_inv_iff)
  ultimately have "set (bt_of kvs) = set kvs" using assms by (simp add: map_of_inject_set)
  then show ?thesis by (simp add: list_all_iff)
qed

lemma server_envelope_safe: "is_ok (server_envelope L typ None body) \<longleftrightarrow> safe_numbers (JObj body)"
  unfolding server_envelope_def canonical_json_def write_canonical_ok envelope_top_def
  by (subst safe_numbers_of_bt)
    (simp_all add: web_transfer_protocol_version_def json_safe_integer_max_def)

definition wide_report :: "web_lib \<Rightarrow> string \<Rightarrow> string \<Rightarrow> string \<Rightarrow> parsed_envelope" where
  "wide_report L i t a =
     \<lparr>env_typ = ''transfer.direct_failed'', env_request_id = Some i,
      env_body = JObj (bt_of [(''transferId'', jid L t), (''attemptId'', jid L a),
        (''resumeRanges'', ranges_json [(0, 9007199254740992)])])\<rparr>"

text \<open>
  C36. A range report can make the forwarding of a failure panic: the notice to the other side
  is built exactly when every bound of the forwarded ranges is a safe integer, but the parser
  of the report accepts any 64 bit bounds. A report of the range from 0 to \<open>2^53\<close> is
  accepted, and building the notice for it fails.
\<close>

theorem direct_failed_notice_can_panic:
  assumes "hex_ok L" "length t = 16" "length a = 16"
  shows "(is_ok (transfer_direct_failed_envelope L t a r ranges) \<longleftrightarrow>
      list_all (\<lambda>r. fst r \<le> json_safe_integer_max \<and> snd r \<le> json_safe_integer_max) ranges) \<and>
    (\<exists>b. parse_direct_failed_body L (wide_report L i t a) = Inr (i, b) \<and>
      \<not> is_ok (transfer_direct_failed_envelope L (dfailed_transfer_id b) (dfailed_attempt_id b)
            (dfailed_reason b) (dfailed_verified_ranges b)))"
proof -
  have b: "is_ok (transfer_direct_failed_envelope L t' a' r' rs) \<longleftrightarrow>
      list_all (\<lambda>r. fst r \<le> json_safe_integer_max \<and> snd r \<le> json_safe_integer_max) rs" for t' a' r' rs
    unfolding transfer_direct_failed_envelope_def server_envelope_safe
    by (subst safe_numbers_of_bt) (auto simp: resume_ranges_field_def safe_ranges_json)
  let ?kvs = "[(''transferId'', jid L t), (''attemptId'', jid L a), (''resumeRanges'', ranges_json [(0, 9007199254740992)])]"
  have o: "open_body (wide_report L i t a) ''transfer.direct_failed''
      [''transferId'', ''attemptId'', ''reason'', ''resumeRanges''] = Inr (i, bt_of ?kvs)"
    unfolding wide_report_def by (rule open_body_own) simp
  have n: "need_id L (bt_of ?kvs) ''transferId'' = Inr t" "need_id L (bt_of ?kvs) ''attemptId'' = Inr a"
    using assms(1-3) by (simp_all add: need_id_def need_str_def map_of_bt_of parse_hex_id_encode)
  have "parse_verified_ranges (ranges_json [(0, 9007199254740992)]) = Inr [(0, 9007199254740992)]"
    by (rule parse_ranges_json) (simp_all add: disjoint_ranges_def max_resume_ranges_def)
  then have "parse_resume_ranges (bt_of ?kvs) = Inr [(0, 9007199254740992)]"
    by (simp add: parse_resume_ranges_def map_of_bt_of ranges_json_def)
  then have "parse_direct_failed_body L (wide_report L i t a) = Inr (i, \<lparr>dfailed_transfer_id = t, dfailed_attempt_id = a,
      dfailed_reason = ''unknown'', dfailed_verified_ranges = [(0, 9007199254740992)]\<rparr>)"
    by (simp add: parse_direct_failed_body_def o n direct_fail_reason_def map_of_bt_of)
  then show ?thesis using b by (auto simp: json_safe_integer_max_def)
qed

theorem direct_failed_notice_can_panic_witness:
  "is_ok (transfer_direct_failed_envelope sample_lib sample_id sample_id ''timeout'' [(0, 4)]) \<and>
   \<not> is_ok (transfer_direct_failed_envelope sample_lib sample_id sample_id ''timeout'' [(0, 2 ^ 60)])"
  using direct_failed_notice_can_panic [OF sample_hex_ok sample_ids(2) sample_ids(2), THEN conjunct1]
  by (simp add: json_safe_integer_max_def)

end
