(* ===== verification/Web_Manifest.thy ===== *)
theory Web_Manifest
  imports Web_Messages
begin

text \<open>
  Offer manifests of \<^verbatim>\<open>src/src/web_transfer_protocol.rs\<close>: names and paths, entries with their
  chunk hashes and roots, the rules that tie mode, kind and entries together, the selections
  of a transfer request and the digests over them.
\<close>

section \<open>Names, paths and times\<close>

definition path_segment_ok :: "string \<Rightarrow> (proto_error, unit) result" where
  "path_segment_ok segment =
     (if segment = [] \<or> segment = ''.'' \<or> segment = ''..'' then Inl (BadManifest ''segment'')
      else if max_path_segment_bytes < length segment then Inl (BadManifest ''segment length'')
      else Inr ())"

definition validate_manifest_path :: "web_lib \<Rightarrow> string \<Rightarrow> (proto_error, unit) result" where
  "validate_manifest_path L path =
     (if path = [] \<or> max_path_bytes < length path then Inl (BadManifest ''path length'')
      else if starts_with ''/'' path \<or> ends_with ''/'' path \<or> CHR 0x5C \<in> set path
        then Inl (BadManifest ''path shape'')
      else if list_ex is_ascii_control path then Inl (BadManifest ''path control'')
      else if \<not> is_nfc L path then Inl (BadManifest ''path nfc'')
      else rbind (rmap path_segment_ok (split_char (CHR ''/'') path)) (\<lambda>_. Inr ()))"

definition validate_display_name :: "string \<Rightarrow> (proto_error, unit) result" where
  "validate_display_name name =
     (let chars = char_count name
      in if chars = 0 \<or> max_display_name_chars < chars then Inl (OutOfRange ''displayName'')
         else if any_control name then Inl (BadField ''displayName'')
         else Inr ())"

definition validate_label :: "web_lib \<Rightarrow> string \<Rightarrow> (proto_error, string) result" where
  "validate_label L label =
     (let trimmed = trim (nfc L label)
      in if trimmed = [] then Inl (BadManifest ''label empty'')
         else if any_control trimmed then Inl (BadManifest ''label control'')
         else if 128 < char_count trimmed then Inl (BadManifest ''label length'')
         else Inr trimmed)"

definition unwrap_or :: "nat option \<Rightarrow> nat \<Rightarrow> nat" where
  "unwrap_or x d = (case x of None \<Rightarrow> d | Some v \<Rightarrow> v)"

definition date_shape :: "string \<Rightarrow> bool" where
  "date_shape date =
     (length date = 10 \<and> date ! 4 = CHR ''-'' \<and> date ! 7 = CHR ''-'' \<and>
      list_all (\<lambda>(i, b). i = 4 \<or> i = 7 \<or> is_ascii_digit b) (enumerate 0 date))"

definition time_shape :: "string \<Rightarrow> bool" where
  "time_shape time =
     (8 \<le> length time \<and> time ! 2 = CHR '':'' \<and> time ! 5 = CHR '':'' \<and>
      list_all (\<lambda>(i, b). i = 2 \<or> i = 5 \<or> is_ascii_digit b \<or> (7 < i \<and> (b = CHR ''.'' \<or> is_ascii_digit b)))
        (enumerate 0 time))"

definition validate_created_at :: "string \<Rightarrow> (proto_error, unit) result" where
  "validate_created_at s =
     (if s = [] \<or> 32 < length s \<or> \<not> list_all (\<lambda>c. byte_of c < 128) s then Inl (BadManifest ''createdAt'')
      else rbind (ok_or (strip_suffix ''Z'' s) (BadManifest ''createdAt'')) (\<lambda>inner.
           rbind (ok_or (split_once (CHR ''T'') inner) (BadManifest ''createdAt'')) (\<lambda>(date, time).
           if \<not> date_shape date then Inl (BadManifest ''createdAt'')
           else if \<not> time_shape time then Inl (BadManifest ''createdAt'')
           else let month = unwrap_or (parse_unsigned u32_max (slice date 5 7)) 0;
                    day = unwrap_or (parse_unsigned u32_max (slice date 8 10)) 0;
                    hour = unwrap_or (parse_unsigned u32_max (slice time 0 2)) 99;
                    minute = unwrap_or (parse_unsigned u32_max (slice time 3 5)) 99;
                    second = unwrap_or (parse_unsigned u32_max (slice time 6 8)) 99
                in if \<not> (1 \<le> month \<and> month \<le> 12) \<or> \<not> (1 \<le> day \<and> day \<le> 31) \<or> 23 < hour \<or>
                      59 < minute \<or> 59 < second
                   then Inl (BadManifest ''createdAt'')
                   else let rest = drop 8 time;
                            frac_ok = (2 \<le> length rest \<and> length rest \<le> 10 \<and> starts_with ''.'' rest \<and>
                                       list_all is_ascii_digit (drop 1 rest))
                        in if rest = [] \<or> frac_ok then Inr () else Inl (BadManifest ''createdAt''))))"

section \<open>Manifests\<close>

record manifest_entry =
  entry_id :: nat
  entry_path :: string
  entry_size :: nat
  entry_mtime :: nat
  entry_chunks :: "string list"
  entry_chunk_count :: nat
  entry_root :: "string option"

datatype manifest_mode = Single | Multi

datatype manifest_kind = File | Files | Folder

fun manifest_mode_as_str :: "manifest_mode \<Rightarrow> string" where
  "manifest_mode_as_str Single = ''single''"
| "manifest_mode_as_str Multi = ''multi''"

definition manifest_mode_parse :: "string \<Rightarrow> (proto_error, manifest_mode) result" where
  "manifest_mode_parse s =
     (if s = ''single'' then Inr Single else if s = ''multi'' then Inr Multi
      else Inl (BadManifest ''mode''))"

fun manifest_kind_as_str :: "manifest_kind \<Rightarrow> string" where
  "manifest_kind_as_str File = ''file''"
| "manifest_kind_as_str Files = ''files''"
| "manifest_kind_as_str Folder = ''folder''"

definition manifest_kind_parse :: "string \<Rightarrow> (proto_error, manifest_kind) result" where
  "manifest_kind_parse s =
     (if s = ''file'' then Inr File else if s = ''files'' then Inr Files
      else if s = ''folder'' then Inr Folder else Inl (BadManifest ''kind''))"

record manifest =
  man_offer :: string
  man_mode :: manifest_mode
  man_label :: string
  man_kind :: manifest_kind
  man_chunk_size :: nat
  man_created_at :: string
  man_entries :: "manifest_entry list"

definition exact_object :: "json \<Rightarrow> string list \<Rightarrow> (proto_error, jmap) result" where
  "exact_object v wanted =
     rbind (ok_or (as_object v) NotObject) (\<lambda>obj.
     rbind (check_keys obj wanted) (\<lambda>_.
     case find (\<lambda>f. map_of obj f = None) wanted of
       None \<Rightarrow> Inr obj
     | Some f \<Rightarrow> Inl (NeedsField f)))"

definition sha256 :: "web_lib \<Rightarrow> string \<Rightarrow> string" where
  "sha256 L s = sha256_digest L s"

definition file_root_input :: "nat \<Rightarrow> string list \<Rightarrow> string" where
  "file_root_input n leaves = ''bore-web-root-v1'' @ to_be_bytes 8 n @ concat leaves"

definition file_root :: "web_lib \<Rightarrow> nat \<Rightarrow> string list \<Rightarrow> (proto_error, string) result" where
  "file_root L chunk_count leaves =
     (if length leaves \<noteq> chunk_count then Inl (BadManifest ''leaves'')
      else Inr (sha256 L (file_root_input chunk_count leaves)))"

definition reserved_zip_entry_id :: nat where "reserved_zip_entry_id = u32_max"

definition parse_root ::
  "web_lib \<Rightarrow> nat \<Rightarrow> string list \<Rightarrow> nat \<Rightarrow> json option \<Rightarrow> (proto_error, string option) result" where
  "parse_root L sz chunks n v =
     (case v of
        None \<Rightarrow> if chunks \<noteq> [] \<or> sz \<noteq> 0 then Inl (BadManifest ''directory'') else Inr None
      | Some JNull \<Rightarrow> if chunks \<noteq> [] \<or> sz \<noteq> 0 then Inl (BadManifest ''directory'') else Inr None
      | Some (JStr h) \<Rightarrow>
          rbind (parse_hex_id L 32 h) (\<lambda>bytes.
          rbind (file_root L n chunks) (\<lambda>expected.
          if bytes \<noteq> expected then Inl (BadManifest ''root'') else Inr (Some bytes)))
      | Some _ \<Rightarrow> Inl (BadManifest ''root''))"

text \<open>
  One pass of the loop over the entries, up to the rules that involve the entries before it:
  the entry in position \<open>position\<close> of a manifest of kind \<open>kind\<close>.
\<close>

definition parse_manifest_entry ::
  "web_lib \<Rightarrow> manifest_kind \<Rightarrow> nat \<Rightarrow> json \<Rightarrow> (proto_error, manifest_entry) result" where
  "parse_manifest_entry L kind position entry =
     rbind (exact_object entry [''id'', ''path'', ''size'', ''mtime'', ''chunks'', ''chunkCount'', ''root'']) (\<lambda>e.
     rbind (rbind (need_str e ''id'') parse_decimal_u64) (\<lambda>i.
     rbind (ensure (i \<noteq> reserved_zip_entry_id) (BadManifest ''reserved'')) (\<lambda>_.
     rbind (ensure (i = position) (BadManifest ''sequence'')) (\<lambda>_.
     rbind (need_str e ''path'') (\<lambda>path.
     rbind (validate_manifest_path L path) (\<lambda>_.
     rbind (rbind (need_str e ''size'') parse_decimal_u64) (\<lambda>size.
     rbind (rbind (need_str e ''mtime'') parse_decimal_u64) (\<lambda>mtime.
     rbind (ok_or (Option.bind (map_of e ''chunks'') as_array) (NeedsField ''chunks'')) (\<lambda>chunks_raw.
     rbind (rmap (\<lambda>c. rbind (ok_or (as_str c) (BadField ''chunks'')) (parse_hex_id L 32)) chunks_raw) (\<lambda>chunks.
     let want = div_ceil size chunk_bytes
     in rbind (ensure (length chunks = want) (BadManifest ''chunks'')) (\<lambda>_.
        rbind (rbind (need_str e ''chunkCount'') parse_decimal_u64) (\<lambda>chunk_count.
        rbind (ensure (chunk_count = want) (BadManifest ''chunkCount'')) (\<lambda>_.
        rbind (parse_root L size chunks chunk_count (map_of e ''root'')) (\<lambda>root.
        rbind (ensure (root \<noteq> None \<or> kind = Folder) (BadManifest ''directory kind'')) (\<lambda>_.
        Inr \<lparr>entry_id = i, entry_path = path, entry_size = size, entry_mtime = mtime,
             entry_chunks = chunks, entry_chunk_count = chunk_count, entry_root = root\<rparr>)))))))))))))))"

definition path_fold :: "web_lib \<Rightarrow> string \<Rightarrow> string" where
  "path_fold L path = str_lowercase L (nfc L path)"

text \<open>
  The loop: \<open>acc\<close> is the sum of the sizes so far and \<open>prev\<close> the folded path of the
  entry before, the last of \<^verbatim>\<open>seen_paths\<close>.
\<close>

fun parse_entries ::
  "web_lib \<Rightarrow> manifest_kind \<Rightarrow> nat \<Rightarrow> nat \<Rightarrow> string option \<Rightarrow> json list \<Rightarrow>
     (proto_error, manifest_entry list \<times> nat) result" where
  "parse_entries L kind position acc prev [] = Inr ([], acc)"
| "parse_entries L kind position acc prev (entry # raw) =
     rbind (parse_manifest_entry L kind position entry) (\<lambda>e.
     rbind (ok_or (checked_add_u64 acc (entry_size e)) (BadManifest ''overflow'')) (\<lambda>acc.
     let fold = path_fold L (entry_path e)
     in rbind (ensure (case prev of None \<Rightarrow> True | Some p \<Rightarrow> p < fold) (BadManifest ''order'')) (\<lambda>_.
        rbind (ensure (entry_id e \<le> u32_max) (BadManifest ''id'')) (\<lambda>_.
        rbind (parse_entries L kind (Suc position) acc (Some fold) raw) (\<lambda>(es, acc).
        Inr (e # es, acc))))))"

definition kind_rule ::
  "manifest_mode \<Rightarrow> manifest_kind \<Rightarrow> manifest_entry list \<Rightarrow> bool" where
  "kind_rule m kind entries =
     (case kind of
        File \<Rightarrow> \<not> (m \<noteq> Single \<or> length entries \<noteq> 1 \<or> entry_root (entries ! 0) = None)
      | Files \<Rightarrow> \<not> (m \<noteq> Multi \<or> list_ex (\<lambda>e. entry_root e = None) entries)
      | Folder \<Rightarrow> \<not> m \<noteq> Multi)"

definition parse_manifest ::
  "web_lib \<Rightarrow> web_transfer_limits \<Rightarrow> json \<Rightarrow> (proto_error, manifest) result" where
  "parse_manifest L limits v =
     rbind (exact_object v [''offer'', ''mode'', ''label'', ''kind'', ''chunkSize'', ''createdAt'', ''entries'']) (\<lambda>obj.
     rbind (need_id L obj ''offer'') (\<lambda>offer.
     rbind (rbind (need_str obj ''mode'') manifest_mode_parse) (\<lambda>m.
     rbind (rbind (need_str obj ''label'') (validate_label L)) (\<lambda>label.
     rbind (rbind (need_str obj ''kind'') manifest_kind_parse) (\<lambda>kind.
     rbind (rbind (need_str obj ''chunkSize'') parse_decimal_u64) (\<lambda>chunk_size.
     rbind (ensure (chunk_size = chunk_bytes) (BadManifest ''chunkSize'')) (\<lambda>_.
     rbind (need_str obj ''createdAt'') (\<lambda>created_at.
     rbind (validate_created_at created_at) (\<lambda>_.
     rbind (ok_or (Option.bind (map_of obj ''entries'') as_array) (NeedsField ''entries'')) (\<lambda>raw.
     rbind (ensure (raw \<noteq> []) (BadManifest ''empty'')) (\<lambda>_.
     rbind (ensure (length raw \<le> max_entries_per_offer limits) (BadManifest ''entry cap'')) (\<lambda>_.
     rbind (parse_entries L kind 0 0 None raw) (\<lambda>(entries, total).
     rbind (ensure (total \<le> max_offer_bytes limits) (BadManifest ''byte cap'')) (\<lambda>_.
     rbind (ensure (m = Single \<longrightarrow> length entries = 1) (BadManifest ''single'')) (\<lambda>_.
     rbind (ensure (kind_rule m kind entries) (BadManifest ''kind rule'')) (\<lambda>_.
     Inr \<lparr>man_offer = offer, man_mode = m, man_label = label, man_kind = kind,
          man_chunk_size = chunk_size, man_created_at = created_at, man_entries = entries\<rparr>))))))))))))))))"

definition entry_value :: "web_lib \<Rightarrow> manifest_entry \<Rightarrow> json" where
  "entry_value L e =
     JObj (bt_of [(''chunkCount'', JStr (show_nat (entry_chunk_count e))),
                  (''chunks'', JArr (map (\<lambda>c. jid L c) (entry_chunks e))),
                  (''id'', JStr (show_nat (entry_id e))),
                  (''mtime'', JStr (show_nat (entry_mtime e))),
                  (''path'', JStr (entry_path e)),
                  (''root'', case entry_root e of Some bytes \<Rightarrow> jid L bytes | None \<Rightarrow> JNull),
                  (''size'', JStr (show_nat (entry_size e)))])"

definition manifest_value :: "web_lib \<Rightarrow> manifest \<Rightarrow> json" where
  "manifest_value L m =
     JObj (bt_of [(''chunkSize'', JStr (show_nat (man_chunk_size m))),
                  (''createdAt'', JStr (man_created_at m)),
                  (''entries'', JArr (map (entry_value L) (man_entries m))),
                  (''kind'', JStr (manifest_kind_as_str (man_kind m))),
                  (''label'', JStr (man_label m)),
                  (''mode'', JStr (manifest_mode_as_str (man_mode m))),
                  (''offer'', jid L (man_offer m))])"

section \<open>Selections\<close>

datatype selection = Raw nat | Zip

definition selection_entry_id :: "string \<Rightarrow> (proto_error, nat) result" where
  "selection_entry_id raw =
     rbind (parse_decimal_u64 raw) (\<lambda>i.
     rbind (ensure (i \<le> u32_max) BadSelection) (\<lambda>_.
     rbind (ensure (i \<noteq> reserved_zip_entry_id) BadSelection) (\<lambda>_. Inr i)))"

fun position :: "('a \<Rightarrow> bool) \<Rightarrow> 'a list \<Rightarrow> nat option" where
  "position P [] = None"
| "position P (x # xs) = (if P x then Some 0 else map_option Suc (position P xs))"

fun zip_loop :: "manifest_entry list \<Rightarrow> bool list \<Rightarrow> string list \<Rightarrow> (proto_error, unit) result" where
  "zip_loop entries seen [] = Inr ()"
| "zip_loop entries seen (raw # ids) =
     rbind (selection_entry_id raw) (\<lambda>i.
     rbind (ok_or (position (\<lambda>e. entry_id e = i) entries) BadSelection) (\<lambda>pos.
     if seen ! pos then Inl BadSelection
     else zip_loop entries (seen[pos := True]) ids))"

definition validate_selection ::
  "string \<Rightarrow> string list \<Rightarrow> manifest \<Rightarrow> (proto_error, selection) result" where
  "validate_selection md entry_ids m =
     (if md = ''raw'' then
        rbind (ensure (length entry_ids = 1) BadSelection) (\<lambda>_.
        rbind (selection_entry_id (entry_ids ! 0)) (\<lambda>i.
        rbind (ok_or (find (\<lambda>e. entry_id e = i) (man_entries m)) BadSelection) (\<lambda>entry.
        rbind (ensure (entry_root entry \<noteq> None) BadSelection) (\<lambda>_.
        Inr (Raw i)))))
      else if md = ''zip'' then
        rbind (ensure (length entry_ids = length (man_entries m)) BadSelection) (\<lambda>_.
        rbind (zip_loop (man_entries m) (replicate (length (man_entries m)) False) entry_ids) (\<lambda>_.
        Inr Zip))
      else Inl BadSelection)"

definition selection_input ::
  "web_lib \<Rightarrow> string \<Rightarrow> string \<Rightarrow> string list \<Rightarrow> string \<Rightarrow> json" where
  "selection_input L offer mac entry_ids md =
     JObj (bt_of [(''entryIds'', JArr (map JStr entry_ids)), (''manifestMac'', jid L mac),
                  (''mode'', JStr md), (''offerId'', jid L offer)])"

definition selection_digest ::
  "web_lib \<Rightarrow> string \<Rightarrow> string \<Rightarrow> string list \<Rightarrow> string \<Rightarrow> (proto_error, string) result" where
  "selection_digest L offer mac entry_ids md =
     rbind (canonical_json L (selection_input L offer mac entry_ids md)) (\<lambda>s. Inr (sha256 L s))"

section \<open>Decimal strings\<close>

lemma dec_digits_snoc: "0 < v \<Longrightarrow> d < 10 \<Longrightarrow> dec_digits (10 * v + d) = dec_digits v @ [d]"
  by (subst dec_digits.simps) simp

lemma digit_char: "is_ascii_digit c \<Longrightarrow> digit_val c < 10 \<and> char_of (48 + digit_val c) = c"
  by (auto simp: is_ascii_digit_def digit_val_def)

lemma digit_val_pos: "is_ascii_digit c \<Longrightarrow> c \<noteq> CHR ''0'' \<Longrightarrow> 0 < digit_val c"
proof -
  assume c: "is_ascii_digit c" "c \<noteq> CHR ''0''"
  have "byte_of (CHR ''0'') = 48" by (simp add: byte_of_def)
  then have "byte_of c \<noteq> 48" using c(2) by (metis byte_of_inj)
  then show ?thesis using c(1) by (simp add: is_ascii_digit_def digit_val_def)
qed

lemma show_nat_snoc:
  "0 < v \<Longrightarrow> is_ascii_digit c \<Longrightarrow> show_nat (10 * v + digit_val c) = show_nat v @ [c]"
  using digit_char [of c] by (simp add: show_nat_def dec_digits_snoc)

lemma show_nat_digit: "is_ascii_digit c \<Longrightarrow> show_nat (digit_val c) = [c]"
  using digit_char [of c] by (simp add: show_nat_def dec_digits.simps)

lemma show_nat_dec_val_pos:
  "s \<noteq> [] \<Longrightarrow> list_all is_ascii_digit s \<Longrightarrow> hd s \<noteq> CHR ''0'' \<Longrightarrow> show_nat (dec_val s) = s \<and> 0 < dec_val s"
proof (induction s rule: rev_induct)
  case (snoc c s)
  show ?case
  proof (cases "s = []")
    case True
    with snoc.prems show ?thesis
      using show_nat_digit [of c] digit_val_pos [of c] by (simp add: dec_val_def)
  next
    case False
    with snoc have "show_nat (dec_val s) = s" "0 < dec_val s" "is_ascii_digit c" by auto
    then show ?thesis by (simp add: dec_val_append_digit show_nat_snoc)
  qed
qed simp

lemma parse_decimal_u64_iff: "parse_decimal_u64 s = Inr n \<longleftrightarrow> n \<le> u64_max \<and> s = show_nat n"
proof
  assume a: "parse_decimal_u64 s = Inr n"
  then have s: "s \<noteq> []" "list_all is_ascii_digit s" "\<not> (1 < length s \<and> starts_with ''0'' s)"
    "parse_u64 s = Some n"
    by (auto simp: parse_decimal_u64_def ok_or_Inr_iff split: if_splits)
  have "CHR ''+'' \<noteq> hd s"
    using s(1,2) is_ascii_digit_not_plus by (cases s) auto
  then have n: "n = dec_val s" "n \<le> u64_max"
    using s(1,4) by (cases s; auto simp: parse_unsigned_def Let_def split: if_splits)+
  have "show_nat (dec_val s) = s"
  proof (cases "hd s = CHR ''0''")
    case True
    then have "s = [CHR ''0'']" using s(1,3) by (cases s) (auto simp: starts_with_iff)
    then show ?thesis using show_nat_digit [of "CHR ''0''"] s(2) by (simp add: dec_val_def)
  qed (use show_nat_dec_val_pos s in simp)
  with n show "n \<le> u64_max \<and> s = show_nat n" by simp
next
  assume a: "n \<le> u64_max \<and> s = show_nat n"
  have "\<not> (1 < length (show_nat n) \<and> starts_with ''0'' (show_nat n))"
    using show_nat_no_padding [of n] by (auto simp: starts_with_iff)
  with a show "parse_decimal_u64 s = Inr n"
    using show_nat_digits [of n] by (simp add: parse_decimal_u64_def parse_unsigned_show_nat)
qed

lemma parse_decimal_show [simp]: "n \<le> u64_max \<Longrightarrow> parse_decimal_u64 (show_nat n) = Inr n"
  by (simp add: parse_decimal_u64_iff)

section \<open>Labels\<close>

lemma first_strip_None: "first_strip ws s = None \<longleftrightarrow> (\<forall>w \<in> set ws. strip_prefix w s = None)"
  by (induction ws) (auto split: option.splits)

lemma first_strip_prefix:
  assumes "first_strip ws (a @ b) = None"
  shows "first_strip ws a = None"
proof -
  have "strip_prefix w (a @ b) = Some (r @ b)" if "strip_prefix w a = Some r" for w r
    using that by (simp add: strip_prefix_Some_iff)
  then show ?thesis using assms unfolding first_strip_None by (metis option.distinct(1) option.exhaust)
qed

lemma trim_fuel_id: "first_strip ws s = None \<Longrightarrow> trim_fuel ws n s = s"
  by (cases n) simp_all

lemma trim_trim [simp]: "trim (trim s) = trim s"
proof -
  let ?t = "trim_start s" and ?u = "trim s"
  obtain q where "rev ?t = q @ trim_fuel (map rev ws_seqs) (length ?t) (rev ?t)"
    using trim_fuel_suffix by blast
  then have "?t = ?u @ rev q" unfolding trim_def trim_end_def by (metis rev_append rev_rev_ident)
  then have "first_strip ws_seqs ?u = None"
    using trim_start_done [of s] first_strip_prefix by metis
  then have start: "trim_start ?u = ?u" by (simp add: trim_start_def trim_fuel_id)
  have "first_strip (map rev ws_seqs) (rev ?u) = None"
    unfolding trim_def trim_end_def rev_rev_ident
    by (rule trim_fuel_enough) (use ws_seqs_nonempty in simp_all)
  then have "trim_end ?u = ?u" by (simp add: trim_end_def trim_fuel_id)
  with start show ?thesis by (simp add: trim_def)
qed

text \<open>
  What is relied on of normalization: a normalized text stays normalized when white space is
  taken off its ends.
\<close>

definition nfc_ok :: "web_lib \<Rightarrow> bool" where
  "nfc_ok L = (\<forall>s. nfc L (trim (nfc L s)) = trim (nfc L s))"

lemma validate_label_stable:
  "nfc_ok L \<Longrightarrow> validate_label L s = Inr t \<Longrightarrow> validate_label L t = Inr t"
  by (auto simp: validate_label_def Let_def nfc_ok_def split: if_splits)

section \<open>Well-formed manifests\<close>

definition entry_ok :: "web_lib \<Rightarrow> manifest_kind \<Rightarrow> nat \<Rightarrow> manifest_entry \<Rightarrow> bool" where
  "entry_ok L kind pos e =
     (entry_id e = pos \<and> pos \<noteq> reserved_zip_entry_id \<and> pos \<le> u64_max \<and>
      validate_manifest_path L (entry_path e) = Inr () \<and>
      entry_size e \<le> u64_max \<and> entry_mtime e \<le> u64_max \<and>
      list_all (\<lambda>c. length c = 32) (entry_chunks e) \<and>
      length (entry_chunks e) = div_ceil (entry_size e) chunk_bytes \<and>
      entry_chunk_count e = length (entry_chunks e) \<and> entry_chunk_count e \<le> u64_max \<and>
      (case entry_root e of
         None \<Rightarrow> entry_chunks e = [] \<and> entry_size e = 0 \<and> kind = Folder
       | Some r \<Rightarrow> length r = 32 \<and> file_root L (entry_chunk_count e) (entry_chunks e) = Inr r))"

lemma parse_root_ok:
  "parse_root L sz chunks n v = Inr root \<Longrightarrow>
     (case root of None \<Rightarrow> chunks = [] \<and> sz = 0
      | Some r \<Rightarrow> length r = 32 \<and> file_root L n chunks = Inr r)"
  by (cases v; (cases "the v")?)
    (auto simp: parse_root_def rbind_Inr_iff parse_hex_id_length split: if_splits)

lemma parse_root_value:
  assumes "hex_ok L" "case root of None \<Rightarrow> chunks = [] \<and> sz = 0
    | Some r \<Rightarrow> length r = 32 \<and> file_root L n chunks = Inr r"
  shows "parse_root L sz chunks n (Some (case root of Some bytes \<Rightarrow> jid L bytes | None \<Rightarrow> JNull)) = Inr root"
  using assms by (cases root) (simp_all add: parse_root_def parse_hex_id_encode)

lemma need_decimal_bound:
  "rbind (need_str obj f) parse_decimal_u64 = Inr n \<Longrightarrow> n \<le> u64_max"
  by (auto simp: rbind_Inr_iff parse_decimal_u64_iff)

lemma parse_chunks_ok:
  "rmap (\<lambda>c. rbind (ok_or (as_str c) e) (parse_hex_id L 32)) raw = Inr chunks \<Longrightarrow>
     list_all (\<lambda>c. length c = 32) chunks"
  by (induction raw arbitrary: chunks) (auto simp: rbind_Inr_iff parse_hex_id_length)

lemma parse_manifest_entry_ok:
  assumes "parse_manifest_entry L kind pos v = Inr e"
  shows "entry_ok L kind pos e"
proof -
  from assms obtain obj i u1 u2 path u3 sz mtime raw chunks u4 n u5 root u6 where
    h: "rbind (need_str obj ''id'') parse_decimal_u64 = Inr i"
      "ensure (i \<noteq> reserved_zip_entry_id) (BadManifest ''reserved'') = Inr u1"
      "ensure (i = pos) (BadManifest ''sequence'') = Inr u2"
      "validate_manifest_path L path = Inr u3"
      "rbind (need_str obj ''size'') parse_decimal_u64 = Inr sz"
      "rbind (need_str obj ''mtime'') parse_decimal_u64 = Inr mtime"
      "rmap (\<lambda>c. rbind (ok_or (as_str c) (BadField ''chunks'')) (parse_hex_id L 32)) raw = Inr chunks"
      "ensure (length chunks = div_ceil sz chunk_bytes) (BadManifest ''chunks'') = Inr u4"
      "rbind (need_str obj ''chunkCount'') parse_decimal_u64 = Inr n"
      "ensure (n = div_ceil sz chunk_bytes) (BadManifest ''chunkCount'') = Inr u5"
      "parse_root L sz chunks n (map_of obj ''root'') = Inr root"
      "ensure (root \<noteq> None \<or> kind = Folder) (BadManifest ''directory kind'') = Inr u6"
    and e: "Inr \<lparr>entry_id = i, entry_path = path, entry_size = sz, entry_mtime = mtime,
        entry_chunks = chunks, entry_chunk_count = n, entry_root = root\<rparr> = (Inr e :: proto_error + _)"
    unfolding parse_manifest_entry_def Let_def
    unfolding rbind_Inr_iff [where r = "exact_object _ _"] rbind_Inr_iff [where r = "ensure _ _"]
      rbind_Inr_iff [where r = "rbind _ _"] rbind_Inr_iff [where r = "need_str _ _" and y = "_ :: manifest_entry"]
      rbind_Inr_iff [where r = "validate_manifest_path _ _"] rbind_Inr_iff [where r = "rmap _ _"]
      rbind_Inr_iff [where r = "ok_or _ _"] rbind_Inr_iff [where r = "parse_root _ _ _ _ _"]
    by (elim exE conjE)
  note bounds = need_decimal_bound [OF h(1)] need_decimal_bound [OF h(5)] need_decimal_bound [OF h(6)]
    need_decimal_bound [OF h(9)]
  show ?thesis
    using h(2-4,8,10,12) bounds parse_chunks_ok [OF h(7)] parse_root_ok [OF h(11)] e
    by (auto simp: entry_ok_def ensure_Inr_iff split: option.splits)
qed

lemma exact_object_own:
  assumes "fst ` set kvs = set wanted"
  shows "exact_object (JObj (bt_of kvs)) wanted = Inr (bt_of kvs)"
proof -
  have "map_of (bt_of kvs) f \<noteq> None" if "f \<in> set wanted" for f
    using that assms keys_bt_of [of kvs] by (simp add: map_of_eq_None_iff)
  then have "find (\<lambda>f. map_of (bt_of kvs) f = None) wanted = None" by (simp add: find_None_iff)
  with assms show ?thesis by (simp add: exact_object_def)
qed

lemma parse_chunks_value:
  "hex_ok L \<Longrightarrow> list_all (\<lambda>c. length c = 32) chunks \<Longrightarrow>
     rmap (\<lambda>c. rbind (ok_or (as_str c) e) (parse_hex_id L 32)) (map (\<lambda>c. jid L c) chunks) = Inr chunks"
  by (rule rmap_map) (simp add: parse_hex_id_encode list_all_iff)

lemma entry_reparse:
  assumes "entry_ok L kind pos e" "hex_ok L"
  shows "parse_manifest_entry L kind pos (entry_value L e) = Inr e"
proof -
  let ?kvs = "[(''chunkCount'', JStr (show_nat (entry_chunk_count e))),
      (''chunks'', JArr (map (\<lambda>c. jid L c) (entry_chunks e))), (''id'', JStr (show_nat (entry_id e))),
      (''mtime'', JStr (show_nat (entry_mtime e))), (''path'', JStr (entry_path e)),
      (''root'', case entry_root e of Some bytes \<Rightarrow> jid L bytes | None \<Rightarrow> JNull),
      (''size'', JStr (show_nat (entry_size e)))]"
  define obj where "obj = bt_of ?kvs"
  have x: "exact_object (entry_value L e) [''id'', ''path'', ''size'', ''mtime'', ''chunks'', ''chunkCount'', ''root'']
      = Inr obj"
    unfolding entry_value_def obj_def by (rule exact_object_own) auto
  have f: "need_str obj ''id'' = Inr (show_nat (entry_id e))" "need_str obj ''path'' = Inr (entry_path e)"
    "need_str obj ''size'' = Inr (show_nat (entry_size e))"
    "need_str obj ''mtime'' = Inr (show_nat (entry_mtime e))"
    "need_str obj ''chunkCount'' = Inr (show_nat (entry_chunk_count e))"
    "map_of obj ''chunks'' = Some (JArr (map (\<lambda>c. jid L c) (entry_chunks e)))"
    "map_of obj ''root'' = Some (case entry_root e of Some bytes \<Rightarrow> jid L bytes | None \<Rightarrow> JNull)"
    by (simp_all add: need_str_def map_of_bt_of obj_def)
  have r: "parse_root L (entry_size e) (entry_chunks e) (entry_chunk_count e)
      (Some (case entry_root e of Some bytes \<Rightarrow> jid L bytes | None \<Rightarrow> JNull)) = Inr (entry_root e)"
    using assms(1) by (intro parse_root_value assms(2)) (auto simp: entry_ok_def split: option.splits)
  have k: "entry_root e \<noteq> None \<or> kind = Folder" using assms(1) by (auto simp: entry_ok_def split: option.splits)
  have o: "entry_id e = pos" "pos \<noteq> reserved_zip_entry_id" "pos \<le> u64_max"
    "validate_manifest_path L (entry_path e) = Inr ()" "entry_size e \<le> u64_max" "entry_mtime e \<le> u64_max"
    "list_all (\<lambda>c. length c = 32) (entry_chunks e)"
    "length (entry_chunks e) = div_ceil (entry_size e) chunk_bytes"
    "entry_chunk_count e = div_ceil (entry_size e) chunk_bytes" "entry_chunk_count e \<le> u64_max"
    using assms(1) unfolding entry_ok_def by (elim conjE; simp)+
  note c = parse_chunks_value [OF assms(2) o(7)]
  have "parse_manifest_entry L kind pos (entry_value L e) =
      Inr \<lparr>entry_id = entry_id e, entry_path = entry_path e, entry_size = entry_size e,
        entry_mtime = entry_mtime e, entry_chunks = entry_chunks e,
        entry_chunk_count = entry_chunk_count e, entry_root = entry_root e\<rparr>"
    unfolding parse_manifest_entry_def x using k o r c by (simp add: f)
  then show ?thesis by simp
qed

text \<open>The entries after position \<open>pos\<close>, with the sum and the folded path before them.\<close>

fun entries_ok ::
  "web_lib \<Rightarrow> manifest_kind \<Rightarrow> nat \<Rightarrow> nat \<Rightarrow> string option \<Rightarrow> manifest_entry list \<Rightarrow> bool" where
  "entries_ok L kind pos acc prev [] = True"
| "entries_ok L kind pos acc prev (e # es) =
     (entry_ok L kind pos e \<and> acc + entry_size e \<le> u64_max \<and> entry_id e \<le> u32_max \<and>
      (case prev of None \<Rightarrow> True | Some p \<Rightarrow> p < path_fold L (entry_path e)) \<and>
      entries_ok L kind (Suc pos) (acc + entry_size e) (Some (path_fold L (entry_path e))) es)"

lemma parse_entries_ok:
  "parse_entries L kind pos acc prev raw = Inr (es, t) \<Longrightarrow>
     entries_ok L kind pos acc prev es \<and> length es = length raw \<and> t = acc + sum_list (map entry_size es)"
proof (induction raw arbitrary: pos acc prev es t)
  case (Cons v raw)
  from Cons.prems obtain e acc' u1 u2 x where
    h: "parse_manifest_entry L kind pos v = Inr e"
      "ok_or (checked_add_u64 acc (entry_size e)) (BadManifest ''overflow'') = Inr acc'"
      "ensure (case prev of None \<Rightarrow> True | Some p \<Rightarrow> p < path_fold L (entry_path e)) (BadManifest ''order'') = Inr u1"
      "ensure (entry_id e \<le> u32_max) (BadManifest ''id'') = Inr u2"
      "parse_entries L kind (Suc pos) acc' (Some (path_fold L (entry_path e))) raw = Inr x"
    and r: "Inr (e # fst x, snd x) = (Inr (es, t) :: proto_error + _)"
    unfolding parse_entries.simps Let_def rbind_Inr_iff split_beta by (elim exE conjE)
  have a: "acc' = acc + entry_size e" "acc + entry_size e \<le> u64_max"
    using h(2) by (auto simp: ok_or_Inr_iff checked_add_u64_Some_iff)
  obtain es' t' where x: "x = (es', t')" by (cases x)
  from Cons.IH [OF h(5) [unfolded x]] have "entries_ok L kind (Suc pos) acc' (Some (path_fold L (entry_path e))) es'"
    "length es' = length raw" "t' = acc' + sum_list (map entry_size es')" by simp_all
  with r x a h(3,4) parse_manifest_entry_ok [OF h(1)] show ?case by (auto simp: ensure_Inr_iff)
qed simp

lemma entries_reparse:
  "entries_ok L kind pos acc prev es \<Longrightarrow> hex_ok L \<Longrightarrow>
     parse_entries L kind pos acc prev (map (entry_value L) es) = Inr (es, acc + sum_list (map entry_size es))"
  by (induction es arbitrary: pos acc prev)
    (simp_all add: entry_reparse checked_add_u64_def)

lemma entries_ok_nth:
  "entries_ok L kind pos acc prev es \<Longrightarrow> i < length es \<Longrightarrow> entry_ok L kind (pos + i) (es ! i)"
proof (induction es arbitrary: pos acc prev i)
  case (Cons e es)
  then show ?case using Cons.IH [of "Suc pos" _ _ "i - 1"] by (cases i) auto
qed simp

lemma entries_ok_folds:
  "entries_ok L kind pos acc prev es \<Longrightarrow>
     sorted_wrt (<) (map (\<lambda>e. path_fold L (entry_path e)) es) \<and>
     (\<forall>p. prev = Some p \<longrightarrow> (\<forall>e \<in> set es. p < path_fold L (entry_path e)))"
proof (induction es arbitrary: pos acc prev)
  case (Cons e es)
  then have "entries_ok L kind (Suc pos) (acc + entry_size e) (Some (path_fold L (entry_path e))) es" by simp
  from Cons.IH [OF this] Cons.prems show ?case by (auto intro: less_trans)
qed simp

definition manifest_ok :: "web_lib \<Rightarrow> web_transfer_limits \<Rightarrow> manifest \<Rightarrow> bool" where
  "manifest_ok L limits m =
     (length (man_offer m) = 16 \<and> validate_label L (man_label m) = Inr (man_label m) \<and>
      man_chunk_size m = chunk_bytes \<and> validate_created_at (man_created_at m) = Inr () \<and>
      man_entries m \<noteq> [] \<and> length (man_entries m) \<le> max_entries_per_offer limits \<and>
      entries_ok L (man_kind m) 0 0 None (man_entries m) \<and>
      sum_list (map entry_size (man_entries m)) \<le> max_offer_bytes limits \<and>
      (man_mode m = Single \<longrightarrow> length (man_entries m) = 1) \<and>
      kind_rule (man_mode m) (man_kind m) (man_entries m))"

lemma parse_manifest_ok:
  assumes "nfc_ok L" "parse_manifest L limits v = Inr m"
  shows "manifest_ok L limits m"
proof -
  from assms(2) obtain obj offer md label kind sz u1 created u2 raw u3 u4 x u5 u6 u7 where
    h: "need_id L obj ''offer'' = Inr offer"
      "rbind (need_str obj ''label'') (validate_label L) = Inr label"
      "ensure (sz = chunk_bytes) (BadManifest ''chunkSize'') = Inr u1"
      "validate_created_at created = Inr u2"
      "ensure (raw \<noteq> []) (BadManifest ''empty'') = Inr u3"
      "ensure (length raw \<le> max_entries_per_offer limits) (BadManifest ''entry cap'') = Inr u4"
      "parse_entries L kind 0 0 None raw = Inr x"
      "ensure (snd x \<le> max_offer_bytes limits) (BadManifest ''byte cap'') = Inr u5"
      "ensure (md = Single \<longrightarrow> length (fst x) = 1) (BadManifest ''single'') = Inr u6"
      "ensure (kind_rule md kind (fst x)) (BadManifest ''kind rule'') = Inr u7"
    and m: "Inr \<lparr>man_offer = offer, man_mode = md, man_label = label, man_kind = kind,
          man_chunk_size = sz, man_created_at = created, man_entries = fst x\<rparr> = (Inr m :: proto_error + _)"
    unfolding parse_manifest_def split_beta
    unfolding rbind_Inr_iff [where r = "exact_object _ _"] rbind_Inr_iff [where r = "ensure _ _"]
      rbind_Inr_iff [where r = "rbind _ _"] rbind_Inr_iff [where r = "need_id _ _ _"]
      rbind_Inr_iff [where r = "need_str _ _" and y = "_ :: manifest"]
      rbind_Inr_iff [where r = "validate_created_at _"] rbind_Inr_iff [where r = "ok_or _ _"]
      rbind_Inr_iff [where r = "parse_entries _ _ _ _ _ _"]
    by (elim exE conjE)
  obtain es t where x: "x = (es, t)" by (cases x)
  note e = parse_entries_ok [OF h(7) [unfolded x]]
  have "validate_label L label = Inr label"
    using h(2) validate_label_stable [OF assms(1)] by (auto simp: rbind_Inr_iff)
  then show ?thesis
    using h(3-6,8-10) need_id_length [OF h(1)] e m x by (auto simp: manifest_ok_def ensure_Inr_iff)
qed

lemma manifest_reparse:
  assumes "manifest_ok L limits m" "hex_ok L"
  shows "parse_manifest L limits (manifest_value L m) = Inr m"
proof -
  let ?kvs = "[(''chunkSize'', JStr (show_nat (man_chunk_size m))), (''createdAt'', JStr (man_created_at m)),
      (''entries'', JArr (map (entry_value L) (man_entries m))),
      (''kind'', JStr (manifest_kind_as_str (man_kind m))), (''label'', JStr (man_label m)),
      (''mode'', JStr (manifest_mode_as_str (man_mode m))), (''offer'', jid L (man_offer m))]"
  define obj where "obj = bt_of ?kvs"
  have x: "exact_object (manifest_value L m)
      [''offer'', ''mode'', ''label'', ''kind'', ''chunkSize'', ''createdAt'', ''entries''] = Inr obj"
    unfolding manifest_value_def obj_def by (rule exact_object_own) auto
  have f: "need_str obj ''mode'' = Inr (manifest_mode_as_str (man_mode m))"
    "need_str obj ''label'' = Inr (man_label m)" "need_str obj ''kind'' = Inr (manifest_kind_as_str (man_kind m))"
    "need_str obj ''chunkSize'' = Inr (show_nat (man_chunk_size m))"
    "need_str obj ''createdAt'' = Inr (man_created_at m)"
    "map_of obj ''entries'' = Some (JArr (map (entry_value L) (man_entries m)))"
    "need_str obj ''offer'' = Inr (hex_encode L (man_offer m))"
    by (simp_all add: need_str_def map_of_bt_of obj_def)
  have p: "manifest_mode_parse (manifest_mode_as_str md) = Inr md"
    "manifest_kind_parse (manifest_kind_as_str k) = Inr k" for md k
    by (cases md; cases k; simp add: manifest_mode_parse_def manifest_kind_parse_def)+
  have n: "need_id L obj ''offer'' = Inr (man_offer m)" "chunk_bytes \<le> u64_max"
    using assms by (simp_all add: need_id_def f parse_hex_id_encode manifest_ok_def chunk_bytes_def u64_max_def)
  have "parse_manifest L limits (manifest_value L m) =
      Inr \<lparr>man_offer = man_offer m, man_mode = man_mode m, man_label = man_label m, man_kind = man_kind m,
        man_chunk_size = man_chunk_size m, man_created_at = man_created_at m, man_entries = man_entries m\<rparr>"
    using assms unfolding parse_manifest_def x manifest_ok_def
    by (simp add: f n p entries_reparse)
  then show ?thesis by simp
qed

lemma kind_rule_shape:
  assumes "kind_rule md k es"
  shows "(md = Single \<longleftrightarrow> k = File) \<and> (k = File \<longrightarrow> length es = 1) \<and>
    (k \<noteq> Folder \<longrightarrow> (\<forall>e \<in> set es. entry_root e \<noteq> None))"
  using assms by (cases k; cases es) (auto simp: kind_rule_def list_ex_iff)

text \<open>
  C5. A manifest that is accepted is well formed and is its own canonical form. Its entries
  are numbered from zero in order and below the id kept for archives, their folded paths
  strictly increase, each lists as many chunk hashes as its size needs, a file has the root
  recomputed from them and a directory none, and the sizes add up within the cap. It is in
  single mode exactly when it offers one file, and only a folder holds directories. The
  value written for it is accepted and gives the same manifest.
\<close>

theorem manifest_wellformed_roundtrip:
  assumes "hex_ok L" "nfc_ok L" "parse_manifest L limits v = Inr m"
  shows "parse_manifest L limits (manifest_value L m) = Inr m \<and>
    (\<forall>i < length (man_entries m). entry_ok L (man_kind m) i (man_entries m ! i)) \<and>
    sorted_wrt (<) (map (\<lambda>e. path_fold L (entry_path e)) (man_entries m)) \<and>
    sum_list (map entry_size (man_entries m)) \<le> max_offer_bytes limits \<and>
    1 \<le> length (man_entries m) \<and> length (man_entries m) \<le> max_entries_per_offer limits \<and>
    (man_mode m = Single \<longleftrightarrow> man_kind m = File) \<and>
    (man_kind m = File \<longrightarrow> length (man_entries m) = 1) \<and>
    (man_kind m \<noteq> Folder \<longrightarrow> (\<forall>e \<in> set (man_entries m). entry_root e \<noteq> None))"
proof -
  have m: "manifest_ok L limits m" by (rule parse_manifest_ok [OF assms(2,3)])
  then have e: "entries_ok L (man_kind m) 0 0 None (man_entries m)" by (simp add: manifest_ok_def)
  have k: "kind_rule (man_mode m) (man_kind m) (man_entries m)" using m by (simp add: manifest_ok_def)
  show ?thesis
    using manifest_reparse [OF m assms(1)] entries_ok_nth [OF e] entries_ok_folds [OF e] m kind_rule_shape [OF k]
    by (simp add: manifest_ok_def Suc_le_eq)
qed

definition sample_entry :: "nat \<Rightarrow> string \<Rightarrow> manifest_entry" where
  "sample_entry i path = \<lparr>entry_id = i, entry_path = path, entry_size = 5, entry_mtime = 7,
     entry_chunks = [replicate 32 (CHR ''c'')], entry_chunk_count = 1,
     entry_root = Some (sha256_digest sample_lib (file_root_input 1 [replicate 32 (CHR ''c'')]))\<rparr>"

definition sample_manifest :: manifest where
  "sample_manifest = \<lparr>man_offer = sample_id, man_mode = Multi, man_label = ''docs'', man_kind = Files,
     man_chunk_size = chunk_bytes, man_created_at = ''2026-01-02T03:04:05Z'',
     man_entries = [sample_entry 0 ''a.txt'', sample_entry 1 ''b/c.txt'']\<rparr>"

lemma sample_nfc_ok: "nfc_ok sample_lib"
  by (simp add: nfc_ok_def sample_lib_def)

lemma sample_entry_ok:
  assumes "validate_manifest_path sample_lib path = Inr ()" "i < 2"
  shows "entry_ok sample_lib Files i (sample_entry i path)"
  using assms by (simp add: entry_ok_def sample_entry_def reserved_zip_entry_id_def u32_max_def u64_max_def
      div_ceil_def chunk_bytes_def file_root_def sha256_def sample_lib_def)

lemma sample_label: "validate_label sample_lib ''docs'' = Inr ''docs''"
proof -
  have "first_strip ws_seqs ''docs'' = None" "first_strip (map rev ws_seqs) ''scod'' = None"
    by (simp_all add: ws_seqs_def char_of_def)
  then have "trim ''docs'' = ''docs''"
    by (simp add: trim_def trim_start_def trim_end_def trim_fuel_id)
  then show ?thesis
    by (simp add: validate_label_def sample_lib_def char_count_def byte_of_def cont_byte_def)
qed

lemma sample_created_at: "validate_created_at ''2026-01-02T03:04:05Z'' = Inr ()"
proof -
  have a: "strip_suffix ''Z'' ''2026-01-02T03:04:05Z'' = Some ''2026-01-02T03:04:05''"
    "split_once (CHR ''T'') ''2026-01-02T03:04:05'' = Some (''2026-01-02'', ''03:04:05'')"
    "date_shape ''2026-01-02''" "time_shape ''03:04:05''"
    by code_simp+
  have p: "parse_unsigned u32_max ''01'' = Some 1" "parse_unsigned u32_max ''02'' = Some 2"
    "parse_unsigned u32_max ''03'' = Some 3" "parse_unsigned u32_max ''04'' = Some 4"
    "parse_unsigned u32_max ''05'' = Some 5"
    by (simp_all add: parse_unsigned_def u32_max_def dec_val_def digit_val_def is_ascii_digit_def byte_of_def)
  show ?thesis
    by (simp add: validate_created_at_def a p slice_def unwrap_or_def byte_of_def)
qed

lemma sample_manifest_ok: "manifest_ok sample_lib limits_default sample_manifest"
proof -
  have p: "validate_manifest_path sample_lib ''a.txt'' = Inr ()" "validate_manifest_path sample_lib ''b/c.txt'' = Inr ()"
    by (simp_all add: validate_manifest_path_def starts_with_def ends_with_def strip_suffix_def
        is_ascii_control_def byte_of_def sample_lib_def path_segment_ok_def max_path_bytes_def
        max_path_segment_bytes_def)
  have f: "path_fold sample_lib ''a.txt'' < path_fold sample_lib ''b/c.txt''" by code_simp
  have e: "entry_id (sample_entry i q) = i" "entry_path (sample_entry i q) = q" "entry_size (sample_entry i q) = 5"
    "entry_root (sample_entry i q) \<noteq> None" for i q
    by (simp_all add: sample_entry_def)
  have "entries_ok sample_lib Files 0 0 None [sample_entry 0 ''a.txt'', sample_entry 1 ''b/c.txt'']"
    using sample_entry_ok [OF p(1), of 0] sample_entry_ok [OF p(2), of 1] f
    by (simp add: e u64_max_def u32_max_def)
  then show ?thesis
    unfolding manifest_ok_def sample_manifest_def
    using sample_label sample_created_at by (simp add: sample_ids limits_default_def kind_rule_def e)
qed

lemmas sample_manifest_parses = manifest_reparse [OF sample_manifest_ok sample_hex_ok]

theorem manifest_wellformed_roundtrip_witness:
  "parse_manifest sample_lib limits_default (manifest_value sample_lib sample_manifest) = Inr sample_manifest \<and>
   entry_ok sample_lib Files 1 (sample_entry 1 ''b/c.txt'') \<and> entry_root (sample_entry 0 ''a.txt'') \<noteq> None"
proof -
  note w = manifest_wellformed_roundtrip [OF sample_hex_ok sample_nfc_ok sample_manifest_parses]
  have f: "man_kind sample_manifest = Files" "man_mode sample_manifest = Multi"
    "man_entries sample_manifest ! 1 = sample_entry 1 ''b/c.txt''" "length (man_entries sample_manifest) = 2"
    by (simp_all add: sample_manifest_def)
  note k = w [THEN conjunct2, THEN conjunct1, rule_format, of 1, unfolded f]
    and r = w [THEN conjunct2, THEN conjunct2, THEN conjunct2, THEN conjunct2, THEN conjunct2, THEN conjunct2, THEN conjunct2, THEN conjunct2,
      THEN mp, unfolded f, rule_format, of "sample_entry 0 ''a.txt''"]
  have "sample_entry 0 ''a.txt'' \<in> set (man_entries sample_manifest)" by (simp add: sample_manifest_def)
  then show ?thesis by (intro conjI sample_manifest_parses k r) simp_all
qed

section \<open>What a selection selects\<close>

lemma selection_entry_id_iff: "selection_entry_id s = Inr i \<longleftrightarrow> s = show_nat i \<and> i < u32_max"
  by (auto simp: selection_entry_id_def rbind_Inr_iff ensure_Inr_iff parse_decimal_u64_iff
      reserved_zip_entry_id_def u32_max_def u64_max_def)

lemma position_sequential:
  "\<forall>k < length es. entry_id (es ! k) = pos + k \<Longrightarrow>
     position (\<lambda>e. entry_id e = i) es = (if pos \<le> i \<and> i < pos + length es then Some (i - pos) else None)"
proof (induction es arbitrary: pos)
  case (Cons e es)
  have "entry_id e = pos" "\<forall>k < length es. entry_id (es ! k) = Suc pos + k" using Cons.prems by fastforce+
  with Cons.IH [of "Suc pos"] show ?case by auto
qed simp

lemma find_position: "find P xs = map_option (\<lambda>i. xs ! i) (position P xs)"
  by (induction xs) (auto simp: option.map_comp comp_def)

lemma zip_loop_iff:
  assumes "\<forall>k < length es. entry_id (es ! k) = k" "length es \<le> u32_max"
  shows "length seen = length es \<Longrightarrow> zip_loop es seen ids = Inr () \<longleftrightarrow>
    (\<exists>js. ids = map show_nat js \<and> distinct js \<and> (\<forall>j \<in> set js. j < length es \<and> \<not> seen ! j))"
proof (induction ids arbitrary: seen)
  case (Cons raw ids)
  have p: "position (\<lambda>e. entry_id e = i) es = (if i < length es then Some i else None)" for i
    using position_sequential [of es 0 i] assms(1) by simp
  have "zip_loop es seen (raw # ids) = Inr () \<longleftrightarrow>
      (\<exists>j. raw = show_nat j \<and> j < length es \<and> \<not> seen ! j \<and> zip_loop es (seen[j := True]) ids = Inr ())"
    using assms(2) by (auto simp: rbind_Inr_iff selection_entry_id_iff p ok_or_Inr_iff split: if_splits)
  also have "\<dots> \<longleftrightarrow> (\<exists>j js. raw # ids = map show_nat (j # js) \<and> distinct (j # js) \<and>
      (\<forall>k \<in> set (j # js). k < length es \<and> \<not> seen ! k))"
    using Cons.IH Cons.prems by (auto simp: nth_list_update split: if_splits) blast+
  also have "\<dots> \<longleftrightarrow> (\<exists>js. raw # ids = map show_nat js \<and> distinct js \<and>
      (\<forall>k \<in> set js. k < length es \<and> \<not> seen ! k))"
    by (metis list.discI list.exhaust list.map_disc_iff)
  finally show ?case .
qed simp

lemma permutation_of_all:
  "length js = n \<Longrightarrow> distinct js \<and> (\<forall>j \<in> set js. j < n) \<longleftrightarrow> mset js = mset [0..<n]"
proof
  assume l: "length js = n" and a: "distinct js \<and> (\<forall>j \<in> set js. j < n)"
  then have "set js \<subseteq> {..<n}" "card (set js) = n" by (auto simp: distinct_card)
  then have "set js = {..<n}" by (simp add: card_subset_eq)
  then have "set js = set [0..<n]" by (simp add: atLeast0LessThan)
  with a show "mset js = mset [0..<n]" using set_eq_iff_mset_eq_distinct [of js "[0..<n]"] by simp
next
  assume "mset js = mset [0..<n]"
  then show "distinct js \<and> (\<forall>j \<in> set js. j < n)"
    by (metis atLeastLessThan_iff distinct_upt mset_eq_imp_distinct_iff mset_eq_setD set_upt)
qed

lemma mset_map_show: "mset ids = mset (map show_nat ks) \<longleftrightarrow> (\<exists>js. ids = map show_nat js \<and> mset js = mset ks)"
proof
  assume a: "mset ids = mset (map show_nat ks)"
  then have "set ids \<subseteq> range show_nat" by (metis image_mono list.set_map mset_eq_setD subset_UNIV)
  then obtain js where j: "ids = map show_nat js" by (metis ex_map_conv rangeE subsetD)
  have "inj (image_mset show_nat)" by (rule multiset.inj_map) (simp add: inj_def)
  with a j have "mset js = mset ks" by (simp add: inj_eq)
  with j show "\<exists>js. ids = map show_nat js \<and> mset js = mset ks" by blast
qed (auto simp: mset_map)

lemma manifest_ids:
  assumes "manifest_ok L limits m"
  shows "\<forall>k < length (man_entries m). entry_id (man_entries m ! k) = k" "length (man_entries m) \<le> u32_max"
proof -
  have e: "entries_ok L (man_kind m) 0 0 None (man_entries m)" using assms by (simp add: manifest_ok_def)
  show i: "\<forall>k < length (man_entries m). entry_id (man_entries m ! k) = k"
    using entries_ok_nth [OF e] by (auto simp: entry_ok_def)
  show "length (man_entries m) \<le> u32_max"
  proof (rule ccontr)
    assume "\<not> length (man_entries m) \<le> u32_max"
    then show False using entries_ok_nth [OF e, of u32_max] by (simp add: entry_ok_def reserved_zip_entry_id_def)
  qed
qed

lemma validate_zip_iff:
  assumes "manifest_ok L limits m"
  shows "validate_selection ''zip'' ids m = Inr sel \<longleftrightarrow>
    sel = Zip \<and> mset ids = mset (map show_nat [0..<length (man_entries m)])"
proof -
  let ?n = "length (man_entries m)"
  have p: "length js = ?n \<and> distinct js \<and> (\<forall>j \<in> set js. j < ?n) \<longleftrightarrow> mset js = mset [0..<?n]" for js
    using permutation_of_all [of js ?n] mset_eq_length [of js "[0..<?n]"] by auto
  have "validate_selection ''zip'' ids m = Inr sel \<longleftrightarrow> sel = Zip \<and> length ids = ?n \<and>
      zip_loop (man_entries m) (replicate ?n False) ids = Inr ()"
    by (auto simp: validate_selection_def rbind_Inr_iff ensure_Inr_iff)
  also have "\<dots> \<longleftrightarrow> sel = Zip \<and> (\<exists>js. ids = map show_nat js \<and>
      (length js = ?n \<and> distinct js \<and> (\<forall>j \<in> set js. j < ?n)))"
    unfolding zip_loop_iff [OF manifest_ids [OF assms] length_replicate] by auto
  finally show ?thesis unfolding p mset_map_show .
qed

lemma validate_raw_iff:
  assumes "manifest_ok L limits m"
  shows "validate_selection ''raw'' ids m = Inr sel \<longleftrightarrow>
    (\<exists>i < length (man_entries m). sel = Raw i \<and> ids = [show_nat i] \<and> entry_root (man_entries m ! i) \<noteq> None)"
proof -
  let ?es = "man_entries m" and ?n = "length (man_entries m)"
  note i = manifest_ids [OF assms]
  have f: "ok_or (find (\<lambda>e. entry_id e = j) ?es) BadSelection = Inr e \<longleftrightarrow> j < ?n \<and> e = ?es ! j" for j e
    using position_sequential [of ?es 0 j] i(1) by (auto simp: find_position ok_or_Inr_iff)
  have "validate_selection ''raw'' ids m = Inr sel \<longleftrightarrow> (\<exists>j. length ids = 1 \<and> ids ! 0 = show_nat j \<and>
      j < u32_max \<and> j < ?n \<and> entry_root (?es ! j) \<noteq> None \<and> sel = Raw j)"
    by (auto simp: validate_selection_def rbind_Inr_iff ensure_Inr_iff selection_entry_id_iff f)
  also have "\<dots> \<longleftrightarrow> (\<exists>i < ?n. sel = Raw i \<and> ids = [show_nat i] \<and> entry_root (?es ! i) \<noteq> None)"
    using i(2) by (cases ids) auto
  finally show ?thesis .
qed

text \<open>
  C3. A selection over an accepted manifest names what it sends, exactly. An archive is
  accepted exactly when the listed ids are those of all the entries, each once, in any order
  and in their only decimal spelling; a raw selection exactly when it is the one id of an
  entry that is a file; and no other mode is accepted.
\<close>

theorem selection_exact:
  assumes "nfc_ok L" "parse_manifest L limits v = Inr m"
  shows "(validate_selection ''zip'' ids m = Inr sel \<longleftrightarrow>
      sel = Zip \<and> mset ids = mset (map show_nat [0..<length (man_entries m)])) \<and>
    (validate_selection ''raw'' ids m = Inr sel \<longleftrightarrow>
      (\<exists>i < length (man_entries m). sel = Raw i \<and> ids = [show_nat i] \<and> entry_root (man_entries m ! i) \<noteq> None)) \<and>
    (md \<noteq> ''raw'' \<and> md \<noteq> ''zip'' \<longrightarrow> validate_selection md ids m = Inl BadSelection)"
  using validate_zip_iff validate_raw_iff parse_manifest_ok [OF assms]
  by (simp add: validate_selection_def)

theorem selection_exact_witness:
  "validate_selection ''zip'' [''1'', ''0''] sample_manifest = Inr Zip \<and>
   validate_selection ''raw'' [''1''] sample_manifest = Inr (Raw 1) \<and>
   validate_selection ''zip'' [''1'', ''1''] sample_manifest \<noteq> Inr Zip \<and>
   validate_selection ''tar'' [''1''] sample_manifest = Inl BadSelection"
proof -
  have n: "length (man_entries sample_manifest) = 2" "entry_root (man_entries sample_manifest ! 1) \<noteq> None"
    by (simp_all add: sample_manifest_def sample_entry_def)
  have d: "show_nat 0 = ''0''" "show_nat (Suc 0) = ''1''" by code_simp+
  note s = selection_exact [OF sample_nfc_ok sample_manifest_parses]
  have z: "validate_selection ''zip'' ids sample_manifest = Inr Zip \<longleftrightarrow> mset ids = {#''0'', ''1''#}" for ids
    using s [of ids Zip] unfolding n by (simp add: upt_rec d)
  have "validate_selection ''raw'' [''1''] sample_manifest = Inr (Raw 1)"
    using s [THEN conjunct2, THEN conjunct1, of "[''1'']" "Raw 1"] n d by auto
  moreover have "validate_selection ''tar'' [''1''] sample_manifest = Inl BadSelection"
    by (rule s [THEN conjunct2, THEN conjunct2, rule_format]) simp
  ultimately show ?thesis unfolding z by simp
qed

section \<open>What the digests bind\<close>

lemma canonical_json_inj:
  "escape_ok L \<Longrightarrow> json_ok v \<Longrightarrow> json_ok w \<Longrightarrow> canonical_json L v = Inr s \<Longrightarrow>
     canonical_json L w = Inr s \<Longrightarrow> v = w"
  using self_delimitingD [OF write_canonical_self_delimiting, of L v w s s "[]" "[]"]
  by (simp add: canonical_json_def delim_def)

lemma selection_input_ok: "json_ok (selection_input L offer mac ids md) \<and> safe_numbers (selection_input L offer mac ids md)"
  by (simp add: selection_input_def bt_of_def bt_inv_def list_all_iff)

lemma selection_input_inj:
  assumes "hex_ok L"
  shows "selection_input L offer mac ids md = selection_input L offer' mac' ids' md' \<longleftrightarrow>
    offer = offer' \<and> mac = mac' \<and> ids = ids' \<and> md = md'"
proof -
  have "hex_encode L a = hex_encode L b \<longleftrightarrow> a = b" for a b
    using hex_okD [OF assms] by (metis option.inject)
  moreover have "map JStr ids = map JStr ids' \<longleftrightarrow> ids = ids'"
    by (rule inj_map_eq_map) (simp add: inj_def)
  ultimately show ?thesis by (auto simp: selection_input_def bt_of_def)
qed

lemma concat_eq_fixed:
  assumes "list_all (\<lambda>x. length x = k) xs" "list_all (\<lambda>x. length x = k) ys" "length xs = length ys"
    "concat xs = concat ys"
  shows "xs = ys"
  using assms(3,1,2,4) by (induction rule: list_induct2) auto

lemma file_root_input_inj:
  assumes "list_all (\<lambda>x. length x = 32) xs" "list_all (\<lambda>x. length x = 32) ys"
    "length xs \<le> u64_max" "length ys \<le> u64_max"
    "file_root_input (length xs) xs = file_root_input (length ys) ys"
  shows "xs = ys"
proof -
  have e: "to_be_bytes 8 (length xs) = to_be_bytes 8 (length ys)" "concat xs = concat ys"
    using assms(5) by (simp_all add: file_root_input_def append_eq_append_conv)
  have "length xs = length ys"
    using arg_cong [OF e(1), of from_be_bytes] assms(3,4) by (simp add: from_to_be_bytes u64_max_def)
  with assms(1,2) e(2) show ?thesis by (blast intro: concat_eq_fixed)
qed

text \<open>
  C13. The two digests are taken over texts that stand for one input only: computing the
  selection digest never fails, the text hashed for it determines the offer, the manifest
  code, the mode and the ids in their order, and the text hashed for the root of a file
  determines the list of its chunk hashes.
\<close>

theorem digest_inputs_unique:
  assumes "escape_ok L" "hex_ok L" "list_all (\<lambda>x. length x = 32) xs" "list_all (\<lambda>x. length x = 32) ys"
    "length xs \<le> u64_max" "length ys \<le> u64_max"
  shows "(\<exists>s. canonical_json L (selection_input L offer mac ids md) = Inr s \<and>
      selection_digest L offer mac ids md = Inr (sha256 L s) \<and>
      (canonical_json L (selection_input L offer' mac' ids' md') = Inr s \<longleftrightarrow>
        offer = offer' \<and> mac = mac' \<and> ids = ids' \<and> md = md')) \<and>
    file_root L (length xs) xs = Inr (sha256 L (file_root_input (length xs) xs)) \<and>
    (file_root_input (length xs) xs = file_root_input (length ys) ys \<longleftrightarrow> xs = ys)"
proof -
  obtain s where s: "canonical_json L (selection_input L offer mac ids md) = Inr s"
    using write_canonical_ok [of L "selection_input L offer mac ids md"] selection_input_ok
    by (auto simp: canonical_json_def is_ok_iff)
  have "canonical_json L (selection_input L offer' mac' ids' md') = Inr s \<longleftrightarrow>
      selection_input L offer mac ids md = selection_input L offer' mac' ids' md'"
    using canonical_json_inj [OF assms(1) _ _ s] selection_input_ok s by metis
  then have "canonical_json L (selection_input L offer' mac' ids' md') = Inr s \<longleftrightarrow>
      offer = offer' \<and> mac = mac' \<and> ids = ids' \<and> md = md'"
    unfolding selection_input_inj [OF assms(2)] .
  with s file_root_input_inj [OF assms(3-6)] show ?thesis
    by (auto simp: selection_digest_def file_root_def)
qed

theorem digest_inputs_unique_witness:
  "is_ok (selection_digest sample_lib sample_id sample_id [''0'', ''1''] ''zip'') \<and>
   canonical_json sample_lib (selection_input sample_lib sample_id sample_id [''0'', ''1''] ''zip'') \<noteq>
     canonical_json sample_lib (selection_input sample_lib sample_id sample_id [''1'', ''0''] ''zip'')"
proof -
  have n: "list_all (\<lambda>x. length x = 32) []" "length [] \<le> u64_max" by simp_all
  from digest_inputs_unique [OF sample_escape_ok sample_hex_ok n(1) n(1) n(2) n(2), of sample_id sample_id
      "[''0'', ''1'']" "''zip''" sample_id sample_id "[''1'', ''0'']" "''zip''"]
  show ?thesis by (auto simp: is_ok_iff)
qed

end
