(* ===== verification/Web_Frames.thy ===== *)
theory Web_Frames
  imports Web_Manifest
begin

text \<open>
  The encrypted frames of a web transfer and the keys they are sealed with, and the first
  message of a relay leg, of \<^verbatim>\<open>src/src/web_transfer_protocol.rs\<close>. The cipher is a
  parameter; what is relied on of it is \<open>aead_ok\<close>.
\<close>

section \<open>Keys\<close>

definition manifest_key :: "web_lib \<Rightarrow> string \<Rightarrow> string \<Rightarrow> string" where
  "manifest_key L room_key room_id = hkdf32 L room_key ''bore-web-manifest-v1'' room_id"

definition manifest_mac :: "web_lib \<Rightarrow> string \<Rightarrow> string \<Rightarrow> string" where
  "manifest_mac L key canonical = hmac_sha256 L key canonical"

definition verify_manifest_mac ::
  "web_lib \<Rightarrow> string \<Rightarrow> string \<Rightarrow> string \<Rightarrow> (proto_error, unit) result" where
  "verify_manifest_mac L key canonical mac =
     (if hmac_sha256 L key canonical = mac then Inr () else Inl BadMac)"

definition attempt_key :: "web_lib \<Rightarrow> string \<Rightarrow> string \<Rightarrow> string \<Rightarrow> string" where
  "attempt_key L room_key transfer_id attempt_id =
     (let info = transfer_id @ attempt_id
      in hkdf32 L room_key ''bore-web-attempt-v1'' info)"

section \<open>Frames\<close>

definition frame_nonce :: "nat \<Rightarrow> string" where
  "frame_nonce seq = to_be_bytes 8 seq @ replicate 4 (CHR 0x00)"

datatype frame_type = Data | Final

fun frame_type_byte :: "frame_type \<Rightarrow> nat" where
  "frame_type_byte Data = 1"
| "frame_type_byte Final = 2"

definition frame_type_try_from :: "nat \<Rightarrow> (proto_error, frame_type) result" where
  "frame_type_try_from v =
     (if v = 1 then Inr Data else if v = 2 then Inr Final else Inl (BadFrame ''type''))"

definition frame_magic :: nat where "frame_magic = 0x42575431"
definition frame_max_plaintext :: nat where "frame_max_plaintext = 24 * 1024"
definition frame_max_body :: nat where "frame_max_body = 32 * 1024"
definition frame_header_len :: nat where "frame_header_len = 16"

text \<open>The length of the tag that the cipher appends.\<close>

definition gcm_tag_len :: nat where "gcm_tag_len = 16"

record decoded_frame =
  frame_ftype :: frame_type
  frame_seq :: nat
  frame_plaintext :: string

definition frame_header :: "frame_type \<Rightarrow> nat \<Rightarrow> nat \<Rightarrow> string" where
  "frame_header ftype seq body_len =
     to_be_bytes 4 frame_magic @ to_be_bytes 2 web_transfer_protocol_version @
     [char_of (frame_type_byte ftype)] @ [CHR 0x00] @ to_be_bytes 4 seq @ to_be_bytes 4 body_len"

definition final_raw_len :: nat where "final_raw_len = 8"
definition final_archive_len :: nat where "final_archive_len = 8 + 8 + 32"

definition is_final_len :: "nat \<Rightarrow> bool" where
  "is_final_len n = (n = final_raw_len \<or> n = final_archive_len)"

definition check_plaintext :: "frame_type \<Rightarrow> string \<Rightarrow> (proto_error, unit) result" where
  "check_plaintext ftype plaintext =
     (case ftype of
        Data \<Rightarrow> if plaintext = [] \<or> frame_max_plaintext < length plaintext
                then Inl (BadFrame ''data length'') else Inr ()
      | Final \<Rightarrow> if \<not> is_final_len (length plaintext) then Inl (BadFrame ''final length'') else Inr ())"

definition seal_frame ::
  "web_lib \<Rightarrow> string \<Rightarrow> nat \<Rightarrow> frame_type \<Rightarrow> string \<Rightarrow> (proto_error, string) result" where
  "seal_frame L key seq ftype plaintext =
     rbind (check_plaintext ftype plaintext) (\<lambda>_.
     let body_len = length plaintext + gcm_tag_len
     in rbind (ensure (body_len \<le> u32_max) (BadFrame ''fragment'')) (\<lambda>_.
        let header = frame_header ftype seq body_len
        in rbind (ok_or (aes_gcm_seal L key (frame_nonce seq) header plaintext) (BadFrame ''seal'')) (\<lambda>buf.
           Inr (header @ buf))))"

definition open_frame ::
  "web_lib \<Rightarrow> string \<Rightarrow> string \<Rightarrow> nat \<Rightarrow> (proto_error, decoded_frame) result" where
  "open_frame L key msg min_seq =
     (if length msg < frame_header_len + gcm_tag_len then Inl (BadFrame ''short'')
      else let header = take frame_header_len msg; body = drop frame_header_len msg
      in if from_be_bytes (take 4 header) \<noteq> frame_magic then Inl (BadFrame ''magic'')
      else if from_be_bytes (slice header 4 6) \<noteq> web_transfer_protocol_version then Inl (BadFrame ''version'')
      else rbind (frame_type_try_from (byte_of (header ! 6))) (\<lambda>ftype.
        if byte_of (header ! 7) \<noteq> 0 then Inl (BadFrame ''reserved'')
        else let seq = from_be_bytes (slice header 8 12); body_len = from_be_bytes (slice header 12 16)
        in if frame_max_body < body_len then Inl (BadFrame ''body cap'')
        else if body_len \<noteq> length body then Inl (BadFrame ''body length'')
        else if seq < min_seq then Inl (BadFrame ''stale'')
        else rbind (ok_or (aes_gcm_open L key (frame_nonce seq) header body) (BadFrame ''authentication'')) (\<lambda>plaintext.
             rbind (check_plaintext ftype plaintext) (\<lambda>_.
             Inr \<lparr>frame_ftype = ftype, frame_seq = seq, frame_plaintext = plaintext\<rparr>))))"

section \<open>The first message of a relay leg\<close>

datatype relay_role = Source | Recipient

definition relay_role_parse :: "string \<Rightarrow> (proto_error, relay_role) result" where
  "relay_role_parse s =
     (if s = ''source'' then Inr Source else if s = ''recipient'' then Inr Recipient
      else Inl (BadField ''role''))"

record relay_attach =
  ra_peer_id :: string
  ra_transfer_id :: string
  ra_attempt_id :: string
  ra_role :: relay_role
  ra_ticket :: string

definition parse_relay_attach :: "web_lib \<Rightarrow> string \<Rightarrow> (proto_error, relay_attach) result" where
  "parse_relay_attach L raw =
     (if max_control_bytes < length raw then Inl TooLarge
      else rbind (parse_json_no_duplicate_keys L raw) (\<lambda>v.
        rbind (exact_object v [''v'', ''peerId'', ''transferId'', ''attemptId'', ''role'', ''ticket'']) (\<lambda>obj.
        rbind (need_u64 obj ''v'') (\<lambda>version.
        rbind (ensure (version = web_transfer_protocol_version) (BadVersion version)) (\<lambda>_.
        rbind (need_id L obj ''peerId'') (\<lambda>peer_id.
        rbind (need_id L obj ''transferId'') (\<lambda>transfer_id.
        rbind (need_id L obj ''attemptId'') (\<lambda>attempt_id.
        rbind (rbind (need_str obj ''role'') relay_role_parse) (\<lambda>role.
        rbind (need_id L obj ''ticket'') (\<lambda>ticket.
        Inr \<lparr>ra_peer_id = peer_id, ra_transfer_id = transfer_id, ra_attempt_id = attempt_id,
             ra_role = role, ra_ticket = ticket\<rparr>))))))))))"

section \<open>A frame is opened exactly when it was sealed\<close>

text \<open>
  What is relied on of the cipher with a 32 byte key and a 12 byte nonce: short texts are
  sealed, the sealed text is 16 bytes longer and is opened with the same nonce and header,
  and nothing is opened but what sealing the text again would give.
\<close>

definition aead_ok :: "web_lib \<Rightarrow> bool" where
  "aead_ok L =
     (\<forall>key nonce aad. length key = 32 \<and> length nonce = 12 \<longrightarrow>
        (\<forall>p. length p \<le> 65536 \<longrightarrow> (\<exists>c. aes_gcm_seal L key nonce aad p = Some c \<and> length c = length p + 16 \<and>
               aes_gcm_open L key nonce aad c = Some p)) \<and>
        (\<forall>c p. aes_gcm_open L key nonce aad c = Some p \<longrightarrow> aes_gcm_seal L key nonce aad p = Some c))"

lemma aead_okD:
  assumes "aead_ok L" "length key = 32"
  shows "length p \<le> 65536 \<Longrightarrow> \<exists>c. aes_gcm_seal L key (frame_nonce seq) aad p = Some c \<and>
      length c = length p + 16 \<and> aes_gcm_open L key (frame_nonce seq) aad c = Some p"
    "aes_gcm_open L key (frame_nonce seq) aad c = Some p \<Longrightarrow> aes_gcm_seal L key (frame_nonce seq) aad p = Some c"
  using assms unfolding aead_ok_def by (simp_all add: frame_nonce_def)

lemma frame_nonce_inj:
  assumes "s \<le> u32_max" "t \<le> u32_max"
  shows "frame_nonce s = frame_nonce t \<longleftrightarrow> s = t"
proof -
  have "s < 256 ^ 8" "t < 256 ^ 8" using assms by (simp_all add: u32_max_def)
  from from_to_be_bytes [OF this(1)] from_to_be_bytes [OF this(2)]
  show ?thesis unfolding frame_nonce_def append_same_eq by metis
qed

lemma length_frame_header [simp]: "length (frame_header ty seq n) = 16"
  by (simp add: frame_header_def)

lemma header_fields:
  "take 4 (frame_header ty seq n) = to_be_bytes 4 frame_magic"
  "slice (frame_header ty seq n) 4 6 = to_be_bytes 2 web_transfer_protocol_version"
  "frame_header ty seq n ! 6 = char_of (frame_type_byte ty)" "frame_header ty seq n ! 7 = CHR 0x00"
  "slice (frame_header ty seq n) 8 12 = to_be_bytes 4 seq" "slice (frame_header ty seq n) 12 16 = to_be_bytes 4 n"
  by (simp_all add: frame_header_def slice_def nth_append)

lemma header_rebuild:
  assumes "length h = 16"
  shows "h = take 4 h @ slice h 4 6 @ [h ! 6] @ [h ! 7] @ slice h 8 12 @ slice h 12 16"
proof -
  have "drop 6 h = h ! 6 # drop 7 h" "drop 7 h = h ! 7 # drop 8 h"
    using assms Cons_nth_drop_Suc [of 6 h] Cons_nth_drop_Suc [of 7 h] by simp_all
  moreover have "drop 4 h = slice h 4 6 @ drop 6 h" "drop 8 h = slice h 8 12 @ drop 12 h"
    "drop 12 h = slice h 12 16 @ drop 16 h"
    by (rule slice_drop, simp)+
  ultimately show ?thesis using append_take_drop_id [of 4 h] assms by simp
qed

lemma check_plaintext_length: "check_plaintext ty p = Inr u \<Longrightarrow> length p \<le> frame_max_plaintext"
  by (cases ty) (auto simp: check_plaintext_def is_final_len_def frame_max_plaintext_def final_raw_len_def
      final_archive_len_def split: if_splits)

lemma frame_type_roundtrip: "frame_type_try_from n = Inr ty \<longleftrightarrow> n = frame_type_byte ty"
  by (cases ty) (auto simp: frame_type_try_from_def)

lemma seal_frame_iff:
  "seal_frame L key seq ty p = Inr msg \<longleftrightarrow> check_plaintext ty p = Inr () \<and>
     (\<exists>c. aes_gcm_seal L key (frame_nonce seq) (frame_header ty seq (length p + 16)) p = Some c \<and>
          msg = frame_header ty seq (length p + 16) @ c)"
proof -
  have "check_plaintext ty p = Inr u \<Longrightarrow> length p + 16 \<le> u32_max" for u
    using check_plaintext_length [of ty p u] by (simp add: frame_max_plaintext_def u32_max_def)
  then show ?thesis
    unfolding seal_frame_def Let_def gcm_tag_len_def
    by (auto simp: rbind_Inr_iff ensure_Inr_iff ok_or_Inr_iff)
qed

lemma open_frame_iff:
  "open_frame L key msg min_seq = Inr f \<longleftrightarrow>
     32 \<le> length msg \<and> from_be_bytes (take 4 msg) = frame_magic \<and>
     from_be_bytes (slice msg 4 6) = web_transfer_protocol_version \<and>
     byte_of (msg ! 6) = frame_type_byte (frame_ftype f) \<and> byte_of (msg ! 7) = 0 \<and>
     from_be_bytes (slice msg 8 12) = frame_seq f \<and> from_be_bytes (slice msg 12 16) = length msg - 16 \<and>
     length msg - 16 \<le> frame_max_body \<and> min_seq \<le> frame_seq f \<and>
     aes_gcm_open L key (frame_nonce (frame_seq f)) (take 16 msg) (drop 16 msg) = Some (frame_plaintext f) \<and>
     check_plaintext (frame_ftype f) (frame_plaintext f) = Inr ()"
proof (cases "32 \<le> length msg")
  case True
  have s: "slice (take 16 msg) 4 6 = slice msg 4 6" "slice (take 16 msg) 8 12 = slice msg 8 12"
    "slice (take 16 msg) 12 16 = slice msg 12 16" "take 4 (take 16 msg) = take 4 msg"
    by (simp_all add: slice_def drop_take)
  show ?thesis
    using True unfolding open_frame_def Let_def frame_header_len_def gcm_tag_len_def s
    by (cases f) (auto simp: rbind_Inr_iff ok_or_Inr_iff frame_type_roundtrip not_less)
qed (auto simp: open_frame_def frame_header_len_def gcm_tag_len_def)

lemma header_iff:
  assumes "16 \<le> length msg" "seq \<le> u32_max" "n \<le> u32_max"
  shows "take 16 msg = frame_header ty seq n \<longleftrightarrow>
    from_be_bytes (take 4 msg) = frame_magic \<and> from_be_bytes (slice msg 4 6) = web_transfer_protocol_version \<and>
    byte_of (msg ! 6) = frame_type_byte ty \<and> byte_of (msg ! 7) = 0 \<and>
    from_be_bytes (slice msg 8 12) = seq \<and> from_be_bytes (slice msg 12 16) = n"
proof -
  let ?h = "take 16 msg"
  have s: "slice ?h 4 6 = slice msg 4 6" "slice ?h 8 12 = slice msg 8 12"
    "slice ?h 12 16 = slice msg 12 16" "take 4 ?h = take 4 msg" "?h ! 6 = msg ! 6" "?h ! 7 = msg ! 7"
    by (simp_all add: slice_def drop_take)
  have l: "length (take 4 msg) = 4" "length (slice msg 4 6) = 2" "length (slice msg 8 12) = 4"
    "length (slice msg 12 16) = 4"
    using assms(1) by (simp_all add: slice_def)
  have c: "byte_of c = k \<longleftrightarrow> c = char_of k" if "k < 256" for c k
    using that by auto
  have b: "byte_of c = frame_type_byte ty \<longleftrightarrow> c = char_of (frame_type_byte ty)"
    "byte_of c = 0 \<longleftrightarrow> c = CHR 0x00" for c
    by (rule c, cases ty; simp) (use c [of 0] in \<open>simp add: char_of_def\<close>)
  have r: "?h = take 4 msg @ slice msg 4 6 @ [msg ! 6] @ [msg ! 7] @ slice msg 8 12 @ slice msg 12 16"
    using header_rebuild [of ?h] assms(1) unfolding s by simp
  have e: "from_be_bytes (take 4 msg) = frame_magic \<longleftrightarrow> take 4 msg = to_be_bytes 4 frame_magic"
    "from_be_bytes (slice msg 4 6) = web_transfer_protocol_version \<longleftrightarrow>
       slice msg 4 6 = to_be_bytes 2 web_transfer_protocol_version"
    "from_be_bytes (slice msg 8 12) = seq \<longleftrightarrow> slice msg 8 12 = to_be_bytes 4 seq"
    "from_be_bytes (slice msg 12 16) = n \<longleftrightarrow> slice msg 12 16 = to_be_bytes 4 n"
    using assms(2,3) by (intro bytes_eq l; simp add: frame_magic_def web_transfer_protocol_version_def u32_max_def)+
  show ?thesis unfolding r frame_header_def b e using l by simp
qed

lemma check_plaintext_fits:
  "check_plaintext ty p = Inr u \<Longrightarrow> length p \<le> 65536 \<and> length p + 16 \<le> frame_max_body \<and> length p + 16 \<le> u32_max"
  using check_plaintext_length [of ty p u] by (simp add: frame_max_plaintext_def frame_max_body_def u32_max_def)

lemma opened_was_sealed:
  assumes "aead_ok L" "length key = 32" "open_frame L key msg min_seq = Inr f"
  shows "min_seq \<le> frame_seq f \<and> frame_seq f \<le> u32_max \<and>
    seal_frame L key (frame_seq f) (frame_ftype f) (frame_plaintext f) = Inr msg"
proof -
  let ?p = "frame_plaintext f" and ?seq = "frame_seq f" and ?ty = "frame_ftype f" and ?n = "length msg - 16"
  from assms(3) [unfolded open_frame_iff] have o: "32 \<le> length msg" "?n \<le> frame_max_body" "min_seq \<le> ?seq"
    "aes_gcm_open L key (frame_nonce ?seq) (take 16 msg) (drop 16 msg) = Some ?p" "check_plaintext ?ty ?p = Inr ()"
    and fields: "from_be_bytes (take 4 msg) = frame_magic" "from_be_bytes (slice msg 4 6) = web_transfer_protocol_version"
      "byte_of (msg ! 6) = frame_type_byte ?ty" "byte_of (msg ! 7) = 0"
      "from_be_bytes (slice msg 8 12) = ?seq" "from_be_bytes (slice msg 12 16) = ?n"
    by blast+
  have "length (slice msg 8 12) = 4" using o(1) by (auto simp: slice_def)
  then have seq: "?seq \<le> u32_max" using from_be_bytes_less [of "slice msg 8 12"] fields(5) by (simp add: u32_max_def)
  note c = aead_okD(2) [OF assms(1,2) o(4)]
  then have n: "?n = length ?p + 16"
    using aead_okD(1) [OF assms(1,2), of ?p ?seq "take 16 msg"] check_plaintext_fits [OF o(5)] by auto
  have "take 16 msg = frame_header ?ty ?seq ?n"
    using header_iff [of msg ?seq ?n ?ty] o(1,2) fields seq by (simp add: frame_max_body_def u32_max_def)
  then have "msg = frame_header ?ty ?seq (length ?p + 16) @ drop 16 msg" using n by (metis append_take_drop_id)
  with \<open>take 16 msg = _\<close> c n o(3,5) seq show ?thesis unfolding seal_frame_iff by metis
qed

lemma sealed_opens:
  assumes "aead_ok L" "length key = 32" "seal_frame L key (frame_seq f) (frame_ftype f) (frame_plaintext f) = Inr msg"
    "min_seq \<le> frame_seq f" "frame_seq f \<le> u32_max"
  shows "open_frame L key msg min_seq = Inr f"
proof -
  let ?p = "frame_plaintext f" and ?seq = "frame_seq f" and ?ty = "frame_ftype f"
  define h where "h = frame_header ?ty ?seq (length ?p + 16)"
  from assms(3) [unfolded seal_frame_iff] obtain c where p: "check_plaintext ?ty ?p = Inr ()"
    and c: "aes_gcm_seal L key (frame_nonce ?seq) h ?p = Some c" and m: "msg = h @ c"
    unfolding h_def by blast
  note fits = check_plaintext_fits [OF p]
  have k: "length c = length ?p + 16" "aes_gcm_open L key (frame_nonce ?seq) h c = Some ?p"
    using aead_okD(1) [OF assms(1,2), of ?p ?seq h] fits c by auto
  have l: "length h = 16" by (simp add: h_def)
  then have h: "take 16 msg = h" "drop 16 msg = c" "length msg = length ?p + 32"
    using m k(1) by simp_all
  have "16 \<le> length msg" using h(3) by simp
  note hd = iffD1 [OF header_iff [OF this assms(5), of "length ?p + 16" ?ty], OF _ h(1) [unfolded h_def]]
  have n: "length msg - 16 = length ?p + 16" using h(3) by simp
  show ?thesis
    unfolding open_frame_iff n h using hd fits k(2) p assms(4) by simp
qed

lemma check_plaintext_iff:
  "check_plaintext ty p = Inr () \<longleftrightarrow>
     (if ty = Data then 1 \<le> length p \<and> length p \<le> 24576 else length p = 8 \<or> length p = 48)"
  by (cases ty) (auto simp: check_plaintext_def is_final_len_def frame_max_plaintext_def final_raw_len_def
      final_archive_len_def Suc_le_eq)

text \<open>
  C1. A message is opened as a frame exactly when it is that frame as sealed with the same
  key, and its sequence number is not below the expected one: sealed frames are opened to
  what was sealed, and no other bytes are. Sealing succeeds exactly for data of 1 to 24576
  bytes and for final records of 8 or 48 bytes.
\<close>

theorem frame_open_iff_sealed:
  assumes "aead_ok L" "length key = 32"
  shows "(open_frame L key msg min_seq = Inr f \<longleftrightarrow>
      min_seq \<le> frame_seq f \<and> frame_seq f \<le> u32_max \<and>
      seal_frame L key (frame_seq f) (frame_ftype f) (frame_plaintext f) = Inr msg) \<and>
    (is_ok (seal_frame L key seq ty p) \<longleftrightarrow>
      (if ty = Data then 1 \<le> length p \<and> length p \<le> 24576 else length p = 8 \<or> length p = 48))"
proof -
  have "is_ok (seal_frame L key seq ty p) \<longleftrightarrow> check_plaintext ty p = Inr ()"
    using aead_okD(1) [OF assms, of p seq "frame_header ty seq (length p + 16)"] check_plaintext_fits [of ty p "()"]
    by (auto simp: is_ok_iff seal_frame_iff)
  then show ?thesis
    unfolding check_plaintext_iff using opened_was_sealed [OF assms] sealed_opens [OF assms] by blast
qed

lemma sample_aead_ok: "aead_ok sample_lib"
proof -
  have "c = take (length c - 16) c @ replicate 16 (CHR 0x00)" if "drop (length c - 16) c = replicate 16 (CHR 0x00)" for c
    using that by (metis append_take_drop_id)
  then show ?thesis by (auto simp: aead_ok_def sample_lib_def split: if_splits)
qed

theorem frame_open_iff_sealed_witness:
  "\<exists>msg. seal_frame sample_lib (replicate 32 (CHR ''k'')) 7 Data ''hello'' = Inr msg \<and>
     open_frame sample_lib (replicate 32 (CHR ''k'')) msg 5 =
       Inr \<lparr>frame_ftype = Data, frame_seq = 7, frame_plaintext = ''hello''\<rparr> \<and>
     \<not> is_ok (open_frame sample_lib (replicate 32 (CHR ''k'')) msg 8)"
proof -
  let ?k = "replicate 32 (CHR ''k'')"
  have k: "length ?k = 32" by simp
  note t = frame_open_iff_sealed [OF sample_aead_ok k]
  obtain msg where m: "seal_frame sample_lib ?k 7 Data ''hello'' = Inr msg"
    using t [of "[]" 0 _ 7 Data "''hello''"] by (auto simp: is_ok_iff)
  then have o: "open_frame sample_lib ?k msg 5 = Inr \<lparr>frame_ftype = Data, frame_seq = 7, frame_plaintext = ''hello''\<rparr>"
    using t by (simp add: u32_max_def)
  have "open_frame sample_lib ?k msg 8 \<noteq> Inr f" for f
  proof
    assume a: "open_frame sample_lib ?k msg 8 = Inr f"
    then have "8 \<le> frame_seq f" using t by blast
    moreover have "open_frame sample_lib ?k msg 5 = Inr f"
      using t [of msg 8 f] t [of msg 5 f] a by simp
    ultimately show False using o by auto
  qed
  with m o show ?thesis by (auto simp: is_ok_iff)
qed

end
