(* ===== verification/Stun.thy ===== *)
theory Stun
  imports Rust_Text "HOL-Library.Word"
begin

text \<open>
  The STUN messages of module \<^verbatim>\<open>stun\<close> of \<^verbatim>\<open>src/src/holepunch.rs\<close>: the binding request and
  response, and the walk over the attributes of a datagram. Every index into a datagram is
  checked, and an index out of bounds is the error value, so that not panicking is a theorem.
\<close>

unbundle bit_operations_syntax

section \<open>Reading bytes\<close>

datatype panic = IndexOutOfBounds

definition rd :: "string \<Rightarrow> nat \<Rightarrow> (panic, nat) result" where
  "rd buf i = (if i < length buf then Inr (byte_of (buf ! i)) else Inl IndexOutOfBounds)"

definition rd_u16 :: "string \<Rightarrow> nat \<Rightarrow> (panic, 16 word) result" where
  "rd_u16 buf i =
     rbind (rd buf i) (\<lambda>a. rbind (rd buf (i + 1)) (\<lambda>b.
     Inr (word_of_nat (from_be_bytes [char_of a, char_of b]))))"

definition rd_u32 :: "string \<Rightarrow> nat \<Rightarrow> (panic, 32 word) result" where
  "rd_u32 buf i =
     rbind (rd buf i) (\<lambda>a. rbind (rd buf (i + 1)) (\<lambda>b.
     rbind (rd buf (i + 2)) (\<lambda>c. rbind (rd buf (i + 3)) (\<lambda>d.
     Inr (word_of_nat (from_be_bytes [char_of a, char_of b, char_of c, char_of d]))))))"

definition rd_slice :: "string \<Rightarrow> nat \<Rightarrow> nat \<Rightarrow> (panic, string) result" where
  "rd_slice buf i j = (if i \<le> j \<and> j \<le> length buf then Inr (slice buf i j) else Inl IndexOutOfBounds)"

definition u16_bytes :: "16 word \<Rightarrow> string" where
  "u16_bytes w = to_be_bytes 2 (unat w)"

definition u32_bytes :: "32 word \<Rightarrow> string" where
  "u32_bytes w = to_be_bytes 4 (unat w)"

section \<open>Messages\<close>

datatype socket_addr = V4 "32 word" "16 word" | V6 string "16 word"

definition magic_cookie :: "32 word" where "magic_cookie = 0x2112A442"
definition binding_request_type :: "16 word" where "binding_request_type = 0x0001"
definition binding_success :: "16 word" where "binding_success = 0x0101"
definition attr_xor_mapped_address :: "16 word" where "attr_xor_mapped_address = 0x0020"
definition attr_change_request :: "16 word" where "attr_change_request = 0x0003"
definition attr_other_address :: "16 word" where "attr_other_address = 0x802C"
definition attr_response_origin :: "16 word" where "attr_response_origin = 0x802B"
definition change_ip :: "8 word" where "change_ip = 0x04"
definition change_port :: "8 word" where "change_port = 0x02"

text \<open>The request for the transaction id that was drawn.\<close>

definition binding_request :: "string \<Rightarrow> string" where
  "binding_request txid =
     u16_bytes binding_request_type @ u16_bytes 0 @ u32_bytes magic_cookie @ txid"

definition binding_request_change_port :: "string \<Rightarrow> string" where
  "binding_request_change_port txid =
     (let msg = binding_request txid
      in take 2 msg @ u16_bytes 8 @ drop 4 msg @ u16_bytes attr_change_request @ u16_bytes 4 @
         [CHR 0x00, CHR 0x00, CHR 0x00, char_of (unat change_port)])"

text \<open>
  The loop over the attributes from \<open>pos\<close> on. The body of a loop is \<open>visit\<close>, which is given
  the type, the length and the start of the value and returns a result or goes on; \<open>dflt\<close> is
  what is returned after a truncated attribute and at the end.
\<close>

function attr_walk ::
  "string \<Rightarrow> (16 word \<Rightarrow> nat \<Rightarrow> nat \<Rightarrow> (panic, 'a option) result) \<Rightarrow> 'a \<Rightarrow> nat \<Rightarrow> (panic, 'a) result" where
  "attr_walk buf visit dflt pos =
     (if pos + 4 \<le> length buf then
        rbind (rd_u16 buf pos) (\<lambda>attr_type.
        rbind (rd_u16 buf (pos + 2)) (\<lambda>len.
        let attr_len = unat len; value_start = pos + 4
        in if length buf < value_start + attr_len then Inr dflt
           else rbind (visit attr_type attr_len value_start) (\<lambda>r.
             case r of Some x \<Rightarrow> Inr x
             | None \<Rightarrow> attr_walk buf visit dflt (value_start + div_ceil attr_len 4 * 4))))
      else Inr dflt)"
  by pat_completeness auto
termination
  by (relation "measure (\<lambda>(buf, visit, dflt, pos). length buf - pos)") auto

declare attr_walk.simps [simp del]

text \<open>The same loop stopped after \<open>n\<close> rounds, where \<open>None\<close> is a loop that is still running.\<close>

fun attr_walk_rounds ::
  "nat \<Rightarrow> string \<Rightarrow> (16 word \<Rightarrow> nat \<Rightarrow> nat \<Rightarrow> (panic, 'a option) result) \<Rightarrow> 'a \<Rightarrow> nat \<Rightarrow> (panic, 'a) result option" where
  "attr_walk_rounds n buf visit dflt pos =
     (if pos + 4 \<le> length buf then
        case n of 0 \<Rightarrow> None
        | Suc k \<Rightarrow>
          (case rd_u16 buf pos of Inl e \<Rightarrow> Some (Inl e) | Inr attr_type \<Rightarrow>
           case rd_u16 buf (pos + 2) of Inl e \<Rightarrow> Some (Inl e) | Inr len \<Rightarrow>
           if length buf < pos + 4 + unat len then Some (Inr dflt)
           else case visit attr_type (unat len) (pos + 4) of
               Inl e \<Rightarrow> Some (Inl e)
             | Inr (Some x) \<Rightarrow> Some (Inr x)
             | Inr None \<Rightarrow> attr_walk_rounds k buf visit dflt (pos + 4 + div_ceil (unat len) 4 * 4))
      else Some (Inr dflt))"

declare attr_walk_rounds.simps [simp del]

definition change_visit :: "string \<Rightarrow> 16 word \<Rightarrow> nat \<Rightarrow> nat \<Rightarrow> (panic, (bool \<times> bool) option) result" where
  "change_visit request attr_type attr_len value_start =
     (if attr_type = attr_change_request \<and> 4 \<le> attr_len then
        rbind (rd request (value_start + 3)) (\<lambda>b.
        let flags = word_of_nat b
        in Inr (Some (flags AND change_ip \<noteq> 0, flags AND change_port \<noteq> 0)))
      else Inr None)"

definition parse_change_request :: "string \<Rightarrow> (panic, bool \<times> bool) result" where
  "parse_change_request request = attr_walk request (change_visit request) (False, False) 20"

definition plain_visit ::
  "string \<Rightarrow> 16 word \<Rightarrow> 16 word \<Rightarrow> nat \<Rightarrow> nat \<Rightarrow> (panic, socket_addr option option) result" where
  "plain_visit buf want attr_type attr_len value_start =
     (if attr_type = want \<and> 8 \<le> attr_len then
        rbind (rd buf (value_start + 1)) (\<lambda>family.
        if family = 0x01 then
          rbind (rd_u16 buf (value_start + 2)) (\<lambda>port.
          rbind (rd_u32 buf (value_start + 4)) (\<lambda>addr.
          Inr (Some (Some (V4 addr port)))))
        else Inr None)
      else Inr None)"

definition parse_plain_address_attr :: "string \<Rightarrow> 16 word \<Rightarrow> (panic, socket_addr option) result" where
  "parse_plain_address_attr buf want =
     (if length buf < 20 then Inr None
      else rbind (rd_u16 buf 0) (\<lambda>t.
        if t \<noteq> binding_success then Inr None
        else attr_walk buf (plain_visit buf want) None 20))"

definition parse_other_address :: "string \<Rightarrow> (panic, socket_addr option) result" where
  "parse_other_address buf = parse_plain_address_attr buf attr_other_address"

definition parse_response_origin :: "string \<Rightarrow> (panic, socket_addr option) result" where
  "parse_response_origin buf = parse_plain_address_attr buf attr_response_origin"

definition push_plain_address :: "string \<Rightarrow> 16 word \<Rightarrow> 32 word \<Rightarrow> 16 word \<Rightarrow> string" where
  "push_plain_address msg attr ip port =
     msg @ u16_bytes attr @ u16_bytes 8 @ [CHR 0x00] @ [CHR 0x01] @ u16_bytes port @ u32_bytes ip"

definition response_txid :: "string \<Rightarrow> (panic, string option) result" where
  "response_txid buf =
     (if length buf < 20 then Inr None
      else rbind (rd_u16 buf 0) (\<lambda>t.
        if t \<noteq> binding_success then Inr None
        else rbind (rd_u32 buf 4) (\<lambda>m.
          if m \<noteq> magic_cookie then Inr None
          else rbind (rd_slice buf 8 20) (\<lambda>txid. Inr (Some txid)))))"

definition cookie_high :: "16 word" where
  "cookie_high = ucast (drop_bit 16 magic_cookie)"

definition parse_xor_mapped :: "string \<Rightarrow> string \<Rightarrow> (panic, socket_addr option) result" where
  "parse_xor_mapped v txid =
     (if length v < 4 then Inr None
      else rbind (rd v 1) (\<lambda>family.
        rbind (rd_u16 v 2) (\<lambda>xport.
        let port = xport XOR cookie_high
        in if family = 0x01 \<and> 8 \<le> length v then
             rbind (rd_u32 v 4) (\<lambda>xaddr. Inr (Some (V4 (xaddr XOR magic_cookie) port)))
           else if family = 0x02 \<and> 20 \<le> length v then
             let key = u32_bytes magic_cookie @ txid
             in rbind (rmap (\<lambda>i. rbind (rd v (4 + i)) (\<lambda>a. rbind (rd key i) (\<lambda>b. Inr (char_of (a XOR b)))))
                  [0..<16]) (\<lambda>addr. Inr (Some (V6 addr port)))
           else Inr None)))"

definition xor_visit ::
  "string \<Rightarrow> string \<Rightarrow> 16 word \<Rightarrow> nat \<Rightarrow> nat \<Rightarrow> (panic, socket_addr option option) result" where
  "xor_visit buf txid attr_type attr_len value_start =
     (if attr_type = attr_xor_mapped_address then
        rbind (rd_slice buf value_start (value_start + attr_len)) (\<lambda>v.
        rbind (parse_xor_mapped v txid) (\<lambda>r. Inr (Some r)))
      else Inr None)"

definition parse_response :: "string \<Rightarrow> string \<Rightarrow> (panic, socket_addr option) result" where
  "parse_response buf txid =
     (if length buf < 20 then Inr None
      else rbind (rd_u16 buf 0) (\<lambda>msg_type.
        if msg_type \<noteq> binding_success then Inr None
        else rbind (rd_u32 buf 4) (\<lambda>m.
          if m \<noteq> magic_cookie then Inr None
          else rbind (rd_slice buf 8 20) (\<lambda>id.
            if id \<noteq> txid then Inr None
            else attr_walk buf (xor_visit buf txid) None 20))))"

definition v4_of :: "socket_addr option \<Rightarrow> (32 word \<times> 16 word) option" where
  "v4_of a = (case a of Some (V4 ip port) \<Rightarrow> Some (ip, port) | _ \<Rightarrow> None)"

definition binding_response_full ::
  "string \<Rightarrow> socket_addr \<Rightarrow> socket_addr option \<Rightarrow> socket_addr option \<Rightarrow> (panic, string option) result" where
  "binding_response_full request source origin other =
     (if length request < 20 then Inr None
      else rbind (rd_u16 request 0) (\<lambda>t.
        if t \<noteq> binding_request_type then Inr None
        else rbind (rd_u32 request 4) (\<lambda>m.
          if m \<noteq> magic_cookie then Inr None
          else case source of
            V6 _ _ \<Rightarrow> Inr None
          | V4 ip port \<Rightarrow>
              let xport = port XOR cookie_high; xaddr = ip XOR magic_cookie;
                  origin_v4 = v4_of origin; other_v4 = v4_of other;
                  attr_len = 12 + (if origin_v4 \<noteq> None then 12 else 0) + (if other_v4 \<noteq> None then 12 else 0)
              in rbind (rd_slice request 8 20) (\<lambda>txid.
                 let msg = u16_bytes binding_success @ u16_bytes (word_of_nat attr_len) @
                       u32_bytes magic_cookie @ txid @
                       u16_bytes attr_xor_mapped_address @ u16_bytes 8 @ [CHR 0x00] @ [CHR 0x01] @
                       u16_bytes xport @ u32_bytes xaddr;
                     msg = (case origin_v4 of Some (a, p) \<Rightarrow> push_plain_address msg attr_response_origin a p | None \<Rightarrow> msg);
                     msg = (case other_v4 of Some (a, p) \<Rightarrow> push_plain_address msg attr_other_address a p | None \<Rightarrow> msg)
                 in Inr (Some msg)))))"

definition binding_response :: "string \<Rightarrow> socket_addr \<Rightarrow> (panic, string option) result" where
  "binding_response request source = binding_response_full request source None None"

section \<open>Reading what was written\<close>

lemma length_u16_bytes [simp]: "length (u16_bytes w) = 2"
  by (simp add: u16_bytes_def)

lemma length_u32_bytes [simp]: "length (u32_bytes w) = 4"
  by (simp add: u32_bytes_def)

lemma u16_value: "word_of_nat (from_be_bytes (u16_bytes w)) = w"
  using from_to_be_bytes [of "unat w" 2] unsigned_less [of w, where ?'a = nat] by (simp add: u16_bytes_def)

lemma u32_value: "word_of_nat (from_be_bytes (u32_bytes w)) = w"
  using from_to_be_bytes [of "unat w" 4] unsigned_less [of w, where ?'a = nat] by (simp add: u32_bytes_def)

lemma rd_eq [simp]: "i < length buf \<Longrightarrow> rd buf i = Inr (byte_of (buf ! i))"
  by (simp add: rd_def)

lemma rd_u16_in: "i + 2 \<le> length buf \<Longrightarrow> rd_u16 buf i = Inr (word_of_nat (from_be_bytes [buf ! i, buf ! (i + 1)]))"
  by (simp add: rd_u16_def)

lemma rd_u32_in:
  "i + 4 \<le> length buf \<Longrightarrow>
     rd_u32 buf i = Inr (word_of_nat (from_be_bytes [buf ! i, buf ! (i + 1), buf ! (i + 2), buf ! (i + 3)]))"
  by (simp add: rd_u32_def)

lemma drop_eq_nth: "drop i s = xs @ r \<Longrightarrow> i \<le> length s \<Longrightarrow> k < length xs \<Longrightarrow> s ! (i + k) = xs ! k \<and> i + k < length s"
  by (metis length_drop le_add_diff_inverse length_append nat_add_left_cancel_less nth_append nth_drop trans_less_add1)

lemma rd_u16_at:
  assumes "drop i buf = u16_bytes w @ r" "i \<le> length buf"
  shows "rd_u16 buf i = Inr w"
proof -
  have l: "i + 2 \<le> length buf" using arg_cong [OF assms(1), of length] by simp
  have "length (u16_bytes w) = 2" by simp
  then obtain a b where w: "u16_bytes w = [a, b]" by (metis length_0_conv length_Suc_conv numeral_2_eq_2)
  have "buf ! i = a" "buf ! (i + 1) = b"
    using drop_eq_nth [OF assms(1,2), of 0] drop_eq_nth [OF assms(1,2), of 1] w by simp_all
  then show ?thesis using rd_u16_in [OF l] u16_value [of w] w by simp
qed

lemma rd_u32_at:
  assumes "drop i buf = u32_bytes w @ r" "i \<le> length buf"
  shows "rd_u32 buf i = Inr w"
proof -
  have l: "i + 4 \<le> length buf" using arg_cong [OF assms(1), of length] by simp
  have "length (u32_bytes w) = Suc (Suc (Suc (Suc 0)))" by simp
  then obtain a b c d where w: "u32_bytes w = [a, b, c, d]" by (auto simp only: length_Suc_conv length_0_conv)
  have "buf ! i = a" "buf ! (i + 1) = b" "buf ! (i + 2) = c" "buf ! (i + 3) = d"
    using drop_eq_nth [OF assms(1,2), of 0] drop_eq_nth [OF assms(1,2), of 1]
      drop_eq_nth [OF assms(1,2), of 2] drop_eq_nth [OF assms(1,2), of 3] w by simp_all
  then show ?thesis using rd_u32_in [OF l] u32_value [of w] w by simp
qed

section \<open>The walk ends and stays in bounds\<close>

lemma attr_walk_ok:
  assumes "\<And>t n vs. vs + n \<le> length buf \<Longrightarrow> is_ok (visit t n vs)"
  shows "is_ok (attr_walk buf visit dflt pos)"
  using assms
proof (induction buf visit dflt pos rule: attr_walk.induct)
  case (1 buf visit dflt pos)
  show ?case
  proof (cases "pos + 4 \<le> length buf")
    case True
    then obtain t l where r: "rd_u16 buf pos = Inr t" "rd_u16 buf (pos + 2) = Inr l"
      using rd_u16_in [of pos buf] rd_u16_in [of "pos + 2" buf] by simp
    show ?thesis
    proof (cases "length buf < pos + 4 + unat l")
      case False
      then obtain x where x: "visit t (unat l) (pos + 4) = Inr x"
        using "1.prems" [of "pos + 4" "unat l" t] by (auto simp: is_ok_iff)
      then have "x = None \<Longrightarrow> is_ok (attr_walk buf visit dflt (pos + 4 + div_ceil (unat l) 4 * 4))"
        using "1.IH" [OF True r refl refl False x _ "1.prems"] by blast
      then show ?thesis
        using True False r x by (subst attr_walk.simps) (auto simp: Let_def is_ok_iff split: option.split)
    qed (use True r in \<open>subst attr_walk.simps; simp add: Let_def\<close>)
  qed (subst attr_walk.simps; simp)
qed

lemma attr_walk_rounds_enough:
  "length buf \<le> pos + 4 * n + 3 \<Longrightarrow> attr_walk_rounds n buf visit dflt pos = Some (attr_walk buf visit dflt pos)"
proof (induction n arbitrary: pos)
  case 0
  then show ?case by (subst attr_walk.simps, subst attr_walk_rounds.simps) simp
next
  case (Suc n)
  have "attr_walk_rounds n buf visit dflt (pos + 4 + k) = Some (attr_walk buf visit dflt (pos + 4 + k))" for k
    by (rule Suc.IH) (use Suc.prems in simp)
  then show ?case
    by (subst attr_walk.simps, subst attr_walk_rounds.simps) (auto simp: Let_def split: sum.split option.split)
qed

lemma change_visit_ok: "vs + n \<le> length buf \<Longrightarrow> is_ok (change_visit buf t n vs)"
  by (simp add: change_visit_def Let_def is_ok_iff)

lemma plain_visit_ok: "vs + n \<le> length buf \<Longrightarrow> is_ok (plain_visit buf want t n vs)"
  by (simp add: plain_visit_def rd_u16_in rd_u32_in is_ok_iff)

lemma parse_xor_mapped_ok: "length txid = 12 \<Longrightarrow> is_ok (parse_xor_mapped v txid)"
  by (auto simp: parse_xor_mapped_def rd_u16_in rd_u32_in Let_def rmap_total list_all_iff)

lemma xor_visit_ok: "length txid = 12 \<Longrightarrow> vs + n \<le> length buf \<Longrightarrow> is_ok (xor_visit buf txid t n vs)"
  using parse_xor_mapped_ok [of txid] by (auto simp: xor_visit_def rd_slice_def is_ok_iff rbind_Inr_iff)

lemma rd_slice_8_20 [simp]: "20 \<le> length buf \<Longrightarrow> rd_slice buf 8 20 = Inr (slice buf 8 20)"
  by (simp add: rd_slice_def)

lemma header_reads:
  assumes "20 \<le> length buf"
  obtains t m where "rd_u16 buf 0 = Inr t" "rd_u32 buf 4 = Inr m"
  using assms rd_u16_in [of 0 buf] rd_u32_in [of 4 buf] by simp

lemma walks_ok:
  "is_ok (attr_walk buf (change_visit buf) (False, False) pos)" "is_ok (attr_walk buf (plain_visit buf want) None pos)"
  "length txid = 12 \<Longrightarrow> is_ok (attr_walk buf (xor_visit buf txid) None pos)"
  using change_visit_ok plain_visit_ok xor_visit_ok by (blast intro: attr_walk_ok)+

lemma parse_response_ok: "length txid = 12 \<Longrightarrow> is_ok (parse_response buf txid)"
proof (cases "length buf < 20")
  case False
  assume t: "length txid = 12"
  from False have "20 \<le> length buf" by simp
  then obtain t m where "rd_u16 buf 0 = Inr t" "rd_u32 buf 4 = Inr m" by (rule header_reads)
  with False walks_ok(3) [OF t, of buf 20] show ?thesis by (simp add: parse_response_def is_ok_iff)
qed (simp add: parse_response_def)

lemma other_readers_ok:
  "is_ok (parse_plain_address_attr buf want) \<and> is_ok (response_txid buf) \<and> is_ok (binding_response_full buf source origin other)"
proof (cases "length buf < 20")
  case False
  then have "20 \<le> length buf" by simp
  then obtain t m where h: "rd_u16 buf 0 = Inr t" "rd_u32 buf 4 = Inr m" by (rule header_reads)
  have "is_ok (parse_plain_address_attr buf want)"
    using False h walks_ok(2) [of buf want 20] by (simp add: parse_plain_address_attr_def is_ok_iff)
  moreover have "is_ok (response_txid buf)" "is_ok (binding_response_full buf source origin other)"
    using False h by (simp_all add: response_txid_def binding_response_full_def is_ok_iff Let_def split: socket_addr.split)
  ultimately show ?thesis by simp
qed (simp add: parse_plain_address_attr_def response_txid_def binding_response_full_def)

text \<open>
  C18. Every reader of a datagram returns, for any bytes at all: no index is out of bounds, and
  the walk over the attributes ends after at most a quarter of the bytes behind the header.
\<close>

theorem stun_readers_return:
  assumes "length txid = 12"
  shows "is_ok (parse_response buf txid) \<and> is_ok (parse_change_request buf) \<and>
    is_ok (parse_other_address buf) \<and> is_ok (parse_response_origin buf) \<and> is_ok (response_txid buf) \<and>
    is_ok (binding_response_full buf source origin other) \<and>
    attr_walk_rounds ((length buf - 20) div 4) buf visit dflt 20 = Some (attr_walk buf visit dflt 20)"
proof -
  have "attr_walk_rounds ((length buf - 20) div 4) buf visit dflt 20 = Some (attr_walk buf visit dflt 20)"
    by (rule attr_walk_rounds_enough) presburger
  then show ?thesis
    using parse_response_ok [OF assms] other_readers_ok walks_ok(1)
    by (simp add: parse_change_request_def parse_other_address_def parse_response_origin_def)
qed

theorem stun_readers_return_witness:
  "is_ok (parse_response (replicate 21 (CHR 0x01)) (replicate 12 (CHR ''t''))) \<and>
   is_ok (parse_change_request (replicate 26 (CHR 0xFF)))"
proof -
  have "length (replicate 12 (CHR ''t'')) = 12" by simp
  note t = stun_readers_return [OF this]
  show ?thesis by (intro conjI, rule t [THEN conjunct1], rule t [THEN conjunct2, THEN conjunct1])
qed

section \<open>Responses are read back\<close>

definition addr_attr :: "16 word \<times> 32 word \<times> 16 word \<Rightarrow> string" where
  "addr_attr x = (case x of (t, ip, port) \<Rightarrow>
     u16_bytes t @ u16_bytes 8 @ [CHR 0x00] @ [CHR 0x01] @ u16_bytes port @ u32_bytes ip)"

lemma length_addr_attr [simp]: "length (addr_attr x) = 12"
  by (simp add: addr_attr_def split: prod.split)

lemma drop_more: "drop i s = xs @ r \<Longrightarrow> length xs = k \<Longrightarrow> drop (i + k) s = r"
  by (metis append_eq_conv_conj drop_drop add.commute)

lemma attr_walk_step:
  assumes "drop pos buf = u16_bytes t @ u16_bytes 8 @ v @ r" "length v = 8" "pos \<le> length buf"
  shows "attr_walk buf visit dflt pos =
    rbind (visit t 8 (pos + 4)) (\<lambda>x. case x of Some y \<Rightarrow> Inr y | None \<Rightarrow> attr_walk buf visit dflt (pos + 12))"
proof -
  have l: "pos + 12 \<le> length buf" using arg_cong [OF assms(1), of length] assms(2,3) by simp
  have "rd_u16 buf pos = Inr t" by (rule rd_u16_at [OF assms(1,3)])
  moreover have "drop (pos + 2) buf = u16_bytes 8 @ v @ r" using drop_more [OF assms(1)] by simp
  then have "rd_u16 buf (pos + 2) = Inr 8" by (rule rd_u16_at) (use l in simp)
  moreover have "unat (8 :: 16 word) = 8" by simp
  moreover have "pos + 4 + div_ceil 8 4 * 4 = pos + 12" by (simp add: div_ceil_def)
  ultimately show ?thesis using l by (subst attr_walk.simps) (simp only: Let_def rbind.simps; simp)
qed

fun first_hit :: "(16 word \<times> 32 word \<times> 16 word \<Rightarrow> 'a option) \<Rightarrow> 'a \<Rightarrow> (16 word \<times> 32 word \<times> 16 word) list \<Rightarrow> 'a" where
  "first_hit g d [] = d"
| "first_hit g d (x # xs) = (case g x of Some y \<Rightarrow> y | None \<Rightarrow> first_hit g d xs)"

lemma walk_addr_attrs:
  assumes "\<And>pos x r. drop pos buf = addr_attr x @ r \<Longrightarrow> pos \<le> length buf \<Longrightarrow> visit (fst x) 8 (pos + 4) = Inr (g x)"
  shows "drop pos buf = concat (map addr_attr xs) \<Longrightarrow> pos \<le> length buf \<Longrightarrow>
    attr_walk buf visit dflt pos = Inr (first_hit g dflt xs)"
proof (induction xs arbitrary: pos)
  case Nil
  then show ?case by (subst attr_walk.simps) simp
next
  case (Cons x xs)
  obtain t ip port where x: "x = (t, ip, port)" by (cases x)
  have d: "drop pos buf = addr_attr x @ concat (map addr_attr xs)" using Cons.prems(1) by simp
  have l: "pos + 12 \<le> length buf" using arg_cong [OF d, of length] Cons.prems(2) by simp
  have "drop pos buf = u16_bytes t @ u16_bytes 8 @ ([CHR 0x00] @ [CHR 0x01] @ u16_bytes port @ u32_bytes ip)
      @ concat (map addr_attr xs)"
    using d x by (simp add: addr_attr_def)
  from attr_walk_step [OF this _ Cons.prems(2), of visit dflt] assms [OF d Cons.prems(2)] Cons.IH [OF drop_more [OF d] l] x
  show ?case by (simp split: option.split)
qed

lemma attr_value:
  assumes "drop pos buf = addr_attr (t, ip, port) @ r" "pos \<le> length buf"
  shows "drop (pos + 4) buf = ([CHR 0x00] @ [CHR 0x01] @ u16_bytes port @ u32_bytes ip) @ r" "pos + 4 \<le> length buf"
proof -
  show "drop (pos + 4) buf = ([CHR 0x00] @ [CHR 0x01] @ u16_bytes port @ u32_bytes ip) @ r"
    by (rule drop_more [where xs = "u16_bytes t @ u16_bytes 8"]) (use assms(1) in \<open>simp_all add: addr_attr_def\<close>)
  show "pos + 4 \<le> length buf" using arg_cong [OF assms(1), of length] assms(2) by simp
qed

lemma value_reads:
  assumes "drop q buf = ([CHR 0x00] @ [CHR 0x01] @ u16_bytes port @ u32_bytes ip) @ r" "q \<le> length buf"
  shows "rd buf (q + 1) = Inr 1" "rd_u16 buf (q + 2) = Inr port" "rd_u32 buf (q + 4) = Inr ip"
    "rd_slice buf q (q + 8) = Inr ([CHR 0x00] @ [CHR 0x01] @ u16_bytes port @ u32_bytes ip)"
proof -
  have l: "q + 8 \<le> length buf" using arg_cong [OF assms(1), of length] assms(2) by simp
  have d2: "drop (q + 2) buf = u16_bytes port @ u32_bytes ip @ r"
    by (rule drop_more [where xs = "[CHR 0x00, CHR 0x01]"]) (use assms(1) in simp_all)
  have d4: "drop (q + 4) buf = u32_bytes ip @ r"
    by (rule drop_more [where xs = "[CHR 0x00, CHR 0x01] @ u16_bytes port"]) (use assms(1) in simp_all)
  show "rd_u16 buf (q + 2) = Inr port" by (rule rd_u16_at [OF d2]) (use l in simp)
  show "rd_u32 buf (q + 4) = Inr ip" by (rule rd_u32_at [OF d4]) (use l in simp)
  have "buf ! (q + 1) = CHR 0x01" using drop_eq_nth [OF assms, of 1] by simp
  then show "rd buf (q + 1) = Inr 1" using l by (simp add: byte_of_def)
  show "rd_slice buf q (q + 8) = Inr ([CHR 0x00] @ [CHR 0x01] @ u16_bytes port @ u32_bytes ip)"
    using l assms(1) by (simp add: rd_slice_def slice_def)
qed

definition plain_hit :: "16 word \<Rightarrow> 16 word \<times> 32 word \<times> 16 word \<Rightarrow> socket_addr option option" where
  "plain_hit want x = (if fst x = want then Some (Some (V4 (fst (snd x)) (snd (snd x)))) else None)"

definition xor_hit :: "16 word \<times> 32 word \<times> 16 word \<Rightarrow> socket_addr option option" where
  "xor_hit x =
     (if fst x = attr_xor_mapped_address
      then Some (Some (V4 (fst (snd x) XOR magic_cookie) (snd (snd x) XOR cookie_high))) else None)"

lemma plain_visit_at:
  assumes "drop pos buf = addr_attr x @ r" "pos \<le> length buf"
  shows "plain_visit buf want (fst x) 8 (pos + 4) = Inr (plain_hit want x)"
proof -
  obtain t ip port where x: "x = (t, ip, port)" by (cases x)
  note r = value_reads [OF attr_value [OF assms(1) [unfolded x] assms(2)]]
  show ?thesis unfolding plain_visit_def r by (simp add: x plain_hit_def)
qed

lemma xor_visit_at:
  assumes "drop pos buf = addr_attr x @ r" "pos \<le> length buf"
  shows "xor_visit buf txid (fst x) 8 (pos + 4) = Inr (xor_hit x)"
proof -
  obtain t ip port where x: "x = (t, ip, port)" by (cases x)
  let ?v = "[CHR 0x00] @ [CHR 0x01] @ u16_bytes port @ u32_bytes ip"
  note r = value_reads [OF attr_value [OF assms(1) [unfolded x] assms(2)]]
  have "rd_u16 ?v 2 = Inr port" "rd_u32 ?v 4 = Inr ip"
    using value_reads(2,3) [of 0 ?v port ip "[]"] by (simp_all add: numeral_2_eq_2)
  then have "parse_xor_mapped ?v txid = Inr (Some (V4 (ip XOR magic_cookie) (port XOR cookie_high)))"
    by (simp add: parse_xor_mapped_def byte_of_def)
  then show ?thesis unfolding xor_visit_def r by (simp add: x xor_hit_def)
qed

definition opt_attr :: "16 word \<Rightarrow> socket_addr option \<Rightarrow> (16 word \<times> 32 word \<times> 16 word) list" where
  "opt_attr t a = (case v4_of a of Some (ip, port) \<Rightarrow> [(t, ip, port)] | None \<Rightarrow> [])"

definition response_header :: "nat \<Rightarrow> string \<Rightarrow> string" where
  "response_header n txid = u16_bytes binding_success @ u16_bytes (word_of_nat n) @ u32_bytes magic_cookie @ txid"

definition response_attrs ::
  "32 word \<Rightarrow> 16 word \<Rightarrow> socket_addr option \<Rightarrow> socket_addr option \<Rightarrow> (16 word \<times> 32 word \<times> 16 word) list" where
  "response_attrs ip port origin other =
     (attr_xor_mapped_address, ip XOR magic_cookie, port XOR cookie_high) #
       opt_attr attr_response_origin origin @ opt_attr attr_other_address other"

lemma response_header_reads:
  assumes "length txid = 12"
  shows "rd_u16 (response_header n txid @ r) 0 = Inr binding_success"
    "rd_u32 (response_header n txid @ r) 4 = Inr magic_cookie"
    "slice (response_header n txid @ r) 8 20 = txid" "length (response_header n txid) = 20"
proof -
  show "rd_u16 (response_header n txid @ r) 0 = Inr binding_success"
    by (rule rd_u16_at) (simp_all add: response_header_def)
  show "rd_u32 (response_header n txid @ r) 4 = Inr magic_cookie"
    by (rule rd_u32_at [where r = "txid @ r"]) (simp_all add: response_header_def)
qed (use assms in \<open>simp_all add: response_header_def slice_def\<close>)

lemma response_bytes:
  assumes "20 \<le> length request" "rd_u16 request 0 = Inr binding_request_type" "rd_u32 request 4 = Inr magic_cookie"
  shows "binding_response_full request (V4 ip port) origin other =
    Inr (Some (response_header (12 * length (response_attrs ip port origin other)) (slice request 8 20) @
      concat (map addr_attr (response_attrs ip port origin other))))"
  using assms
  by (auto simp: binding_response_full_def Let_def response_header_def response_attrs_def opt_attr_def
      addr_attr_def push_plain_address_def split: option.split)

lemma request_reads:
  assumes "length txid = 12"
  shows "rd_u16 (u16_bytes binding_request_type @ u16_bytes n @ u32_bytes magic_cookie @ txid @ r) 0 = Inr binding_request_type"
    "rd_u32 (u16_bytes binding_request_type @ u16_bytes n @ u32_bytes magic_cookie @ txid @ r) 4 = Inr magic_cookie"
    "slice (u16_bytes binding_request_type @ u16_bytes n @ u32_bytes magic_cookie @ txid @ r) 8 20 = txid"
proof -
  show "rd_u16 (u16_bytes binding_request_type @ u16_bytes n @ u32_bytes magic_cookie @ txid @ r) 0 = Inr binding_request_type"
    by (rule rd_u16_at) simp_all
  show "rd_u32 (u16_bytes binding_request_type @ u16_bytes n @ u32_bytes magic_cookie @ txid @ r) 4 = Inr magic_cookie"
    by (rule rd_u32_at [where r = "txid @ r"]) simp_all
qed (use assms in \<open>simp add: slice_def\<close>)

lemma binding_request_change_port_bytes:
  "binding_request_change_port txid = u16_bytes binding_request_type @ u16_bytes 8 @ u32_bytes magic_cookie @ txid @
     u16_bytes attr_change_request @ u16_bytes 4 @ [CHR 0x00, CHR 0x00, CHR 0x00, CHR 0x02]"
  by (simp add: binding_request_change_port_def binding_request_def change_port_def char_of_def bit_0)

lemma parse_change_request_plain: "length txid = 12 \<Longrightarrow> parse_change_request (binding_request txid) = Inr (False, False)"
  by (simp add: parse_change_request_def attr_walk.simps binding_request_def)

lemma parse_change_request_port:
  assumes "length txid = 12"
  shows "parse_change_request (binding_request_change_port txid) = Inr (False, True)"
proof -
  let ?b = "binding_request_change_port txid"
  have b: "length ?b = 28" "drop 20 ?b = u16_bytes attr_change_request @ u16_bytes 4 @ [CHR 0x00, CHR 0x00, CHR 0x00, CHR 0x02]"
    using assms by (simp_all add: binding_request_change_port_bytes)
  have r: "rd_u16 ?b 20 = Inr attr_change_request" by (rule rd_u16_at [OF b(2)]) (simp add: b)
  have "drop (20 + 2) ?b = u16_bytes 4 @ [CHR 0x00, CHR 0x00, CHR 0x00, CHR 0x02]"
    by (rule drop_more [OF b(2)]) simp
  then have r2: "rd_u16 ?b (20 + 2) = Inr 4" by (rule rd_u16_at) (simp add: b)
  have "?b ! (20 + 7) = CHR 0x02" using drop_eq_nth [of 20 ?b "drop 20 ?b" "[]" 7] b by (simp add: nth_append)
  then have r3: "rd ?b 27 = Inr 2" by (simp add: b byte_of_def)
  show ?thesis
    unfolding parse_change_request_def
    by (subst attr_walk.simps) (use r r2 r3 b in \<open>simp add: Let_def change_visit_def change_ip_def change_port_def\<close>)
qed

lemma attr_types_distinct:
  "attr_xor_mapped_address \<noteq> attr_response_origin" "attr_xor_mapped_address \<noteq> attr_other_address"
  "attr_response_origin \<noteq> attr_other_address" "attr_other_address \<noteq> attr_response_origin"
  by (simp_all add: attr_xor_mapped_address_def attr_response_origin_def attr_other_address_def)

definition plain_v4 :: "socket_addr option \<Rightarrow> socket_addr option" where
  "plain_v4 a = map_option (\<lambda>(ip, port). V4 ip port) (v4_of a)"

lemma response_parsed:
  assumes "length txid = 12" "msg = response_header n txid @ concat (map addr_attr (response_attrs ip port origin other))"
  shows "parse_response msg tid = Inr (if tid = txid then Some (V4 ip port) else None)"
    "parse_other_address msg = Inr (plain_v4 other)" "parse_response_origin msg = Inr (plain_v4 origin)"
    "response_txid msg = Inr (Some txid)"
proof -
  let ?as = "response_attrs ip port origin other"
  note h = response_header_reads(1-3) [OF assms(1), of n "concat (map addr_attr ?as)", folded assms(2)]
  have l: "20 \<le> length msg" "drop 20 msg = concat (map addr_attr ?as)" using response_header_reads(4) [OF assms(1), of n] assms(2) by simp_all
  have "attr_walk msg (xor_visit msg txid) None 20 = Inr (first_hit xor_hit None ?as)"
    using l by (intro walk_addr_attrs xor_visit_at)
  then have x: "attr_walk msg (xor_visit msg txid) None 20 = Inr (Some (V4 ip port))"
    by (simp add: response_attrs_def xor_hit_def xor.assoc)
  have p: "attr_walk msg (plain_visit msg want) None 20 = Inr (first_hit (plain_hit want) None ?as)" for want
    using l by (intro walk_addr_attrs plain_visit_at)
  show "parse_response msg tid = Inr (if tid = txid then Some (V4 ip port) else None)"
    using l h x by (auto simp: parse_response_def)
  show "parse_other_address msg = Inr (plain_v4 other)" "parse_response_origin msg = Inr (plain_v4 origin)"
    using l h by (auto simp: parse_other_address_def parse_response_origin_def parse_plain_address_attr_def p
        response_attrs_def opt_attr_def plain_v4_def plain_hit_def attr_types_distinct split: option.split)
  show "response_txid msg = Inr (Some txid)" using l h by (simp add: response_txid_def)
qed

lemma request_answered:
  assumes "length txid = 12" "request = binding_request txid \<or> request = binding_request_change_port txid"
  shows "binding_response_full request (V4 ip port) origin other =
    Inr (Some (response_header (12 * length (response_attrs ip port origin other)) txid @
      concat (map addr_attr (response_attrs ip port origin other))))"
proof -
  obtain n r where "request = u16_bytes binding_request_type @ u16_bytes n @ u32_bytes magic_cookie @ txid @ r"
    using assms(2) unfolding binding_request_change_port_bytes binding_request_def by (metis append_Nil2)
  then show ?thesis
    using response_bytes [of request ip port origin other] request_reads [OF assms(1), of n r] assms(1) by simp
qed

text \<open>
  C7. What a responder answers to a binding request, plain or with the change-port flag, the
  client that sent it reads back: its own address as the responder saw it, the two addresses
  the responder published where they are IPv4, and its transaction id. To every other
  transaction id the answer is no answer.
\<close>

theorem stun_response_roundtrip:
  assumes "length txid = 12" "request = binding_request txid \<or> request = binding_request_change_port txid"
  shows "\<exists>msg. binding_response_full request (V4 ip port) origin other = Inr (Some msg) \<and>
    parse_response msg txid = Inr (Some (V4 ip port)) \<and> (tid \<noteq> txid \<longrightarrow> parse_response msg tid = Inr None) \<and>
    parse_other_address msg = Inr (plain_v4 other) \<and> parse_response_origin msg = Inr (plain_v4 origin) \<and>
    response_txid msg = Inr (Some txid)"
  using request_answered [OF assms, of ip port origin other] response_parsed [OF assms(1) refl] by simp

theorem stun_response_roundtrip_witness:
  "\<exists>msg. binding_response_full (binding_request (replicate 12 (CHR ''t''))) (V4 0xC0000201 4500) None (Some (V4 0xC0000202 3479)) =
       Inr (Some msg) \<and>
     parse_response msg (replicate 12 (CHR ''t'')) = Inr (Some (V4 0xC0000201 4500)) \<and>
     parse_other_address msg = Inr (Some (V4 0xC0000202 3479))"
proof -
  have l: "length (replicate 12 (CHR ''t'')) = 12" by simp
  have o: "plain_v4 (Some (V4 0xC0000202 3479)) = Some (V4 0xC0000202 3479)" by (simp add: plain_v4_def v4_of_def)
  show ?thesis
    using stun_response_roundtrip [OF l disjI1 [OF refl], of "0xC0000201" 4500 None "Some (V4 0xC0000202 3479)"]
    unfolding o by blast
qed

end
