(* ===== verification/Nat_Probe.thy ===== *)
theory Nat_Probe
  imports Stun Adaptive_Nat
begin

text \<open>
  The rest of what \<^verbatim>\<open>src/src/holepunch.rs\<close> says on the wire to measure and open a path:
  the authenticated check frames of module \<^verbatim>\<open>check\<close>, the STUN responder, and the probe of
  the filtering behaviour of a NAT, up to the verdict the planner reads. What the network
  does in each attempt is an argument of the probe; the message code is a parameter.
\<close>

section \<open>Check frames\<close>

definition check_frame_len :: nat where "check_frame_len = 60"
definition check_magic :: string where "check_magic = ''bcc1''"
definition kind_request :: nat where "kind_request = 1"
definition kind_response :: nat where "kind_response = 2"
definition hmac_at :: nat where "hmac_at = 28"

record check_frame =
  cf_kind :: nat
  cf_role :: nat
  cf_generation :: "32 word"
  cf_txid :: string
  cf_observed :: "socket_addr option"

definition looks_like :: "string \<Rightarrow> bool" where
  "looks_like buf = (length buf = check_frame_len \<and> take 4 buf = check_magic)"

definition check_head :: "nat \<Rightarrow> nat \<Rightarrow> 32 word \<Rightarrow> string \<Rightarrow> (32 word \<times> 16 word) option \<Rightarrow> string" where
  "check_head kind role generation txid observed =
     check_magic @ [char_of kind] @ [char_of role] @ u32_bytes generation @ txid @
     (case observed of Some (ip, port) \<Rightarrow> u32_bytes ip @ u16_bytes port | None \<Rightarrow> replicate 6 (CHR 0x00))"

definition check_build ::
  "(string \<Rightarrow> string \<Rightarrow> string) \<Rightarrow> string \<Rightarrow> nat \<Rightarrow> nat \<Rightarrow> 32 word \<Rightarrow> string \<Rightarrow> (32 word \<times> 16 word) option \<Rightarrow> string" where
  "check_build hmac key kind role generation txid observed =
     (let frame = check_head kind role generation txid observed in frame @ hmac key frame)"

definition check_request :: "(string \<Rightarrow> string \<Rightarrow> string) \<Rightarrow> string \<Rightarrow> nat \<Rightarrow> 32 word \<Rightarrow> string \<Rightarrow> string" where
  "check_request hmac key role generation txid = check_build hmac key kind_request role generation txid None"

definition check_response ::
  "(string \<Rightarrow> string \<Rightarrow> string) \<Rightarrow> string \<Rightarrow> nat \<Rightarrow> 32 word \<Rightarrow> string \<Rightarrow> socket_addr \<Rightarrow> string" where
  "check_response hmac key role generation txid observed =
     check_build hmac key kind_response role generation txid (v4_of (Some observed))"

definition check_parse :: "(string \<Rightarrow> string \<Rightarrow> string) \<Rightarrow> string \<Rightarrow> string \<Rightarrow> (panic, check_frame option) result" where
  "check_parse hmac key buf =
     (if \<not> looks_like buf then Inr None
      else rbind (rd buf 4) (\<lambda>kind.
        if kind \<noteq> kind_request \<and> kind \<noteq> kind_response then Inr None
        else rbind (rd_slice buf 0 hmac_at) (\<lambda>frame.
        rbind (rd_slice buf hmac_at (length buf)) (\<lambda>tag.
        if hmac key frame \<noteq> tag then Inr None
        else rbind (rd buf 5) (\<lambda>role.
          rbind (rd_u32 buf 6) (\<lambda>generation.
          rbind (rd_slice buf 10 22) (\<lambda>txid.
          rbind (rd_u32 buf 22) (\<lambda>ip.
          rbind (rd_u16 buf 26) (\<lambda>port.
          let observed = (if ip = 0 \<and> port = 0 then None else Some (V4 ip port))
          in Inr (Some \<lparr>cf_kind = kind, cf_role = role, cf_generation = generation, cf_txid = txid,
                        cf_observed = observed\<rparr>))))))))))"

section \<open>The responder\<close>

text \<open>
  One round of the responder loop on a datagram from \<open>from\<close>. The listening socket has the
  local address \<open>listen\<close> (\<open>None\<close> where asking for it fails), \<open>alternate\<close> is the other socket,
  if there is one, with its local address, and \<open>other\<close> is the address to publish. The result
  says whether the other socket sends, and what is sent.
\<close>

definition recv_len :: nat where "recv_len = 512"

definition stun_answer ::
  "socket_addr option \<Rightarrow> socket_addr option option \<Rightarrow> socket_addr option \<Rightarrow> string \<Rightarrow> socket_addr \<Rightarrow>
     (panic, (bool \<times> string) option) result" where
  "stun_answer listen alternate other datagram from =
     (let buf = take recv_len datagram
      in rbind (parse_change_request buf) (\<lambda>(change_ip, want_change_port).
         let changed = (want_change_port \<and> alternate \<noteq> None);
             local_addr = (if changed then the alternate else listen);
             sent_from = (case local_addr of Some a \<Rightarrow> Some a | None \<Rightarrow> listen)
         in rbind (binding_response_full buf from sent_from other) (\<lambda>reply.
            Inr (map_option (\<lambda>r. (changed, r)) reply))))"

definition responder_primary ::
  "socket_addr option \<Rightarrow> socket_addr option option \<Rightarrow> string \<Rightarrow> socket_addr \<Rightarrow> (panic, (bool \<times> string) option) result" where
  "responder_primary primary_addr alt datagram from =
     stun_answer primary_addr alt (Option.bind alt (\<lambda>a. a)) datagram from"

definition responder_alternate ::
  "socket_addr option \<Rightarrow> socket_addr option \<Rightarrow> string \<Rightarrow> socket_addr \<Rightarrow> (panic, (bool \<times> string) option) result" where
  "responder_alternate alt_addr primary_addr datagram from =
     stun_answer alt_addr None primary_addr datagram from"

section \<open>The probe\<close>

datatype filter_probe = ProbeOpen | ProbeBlocked | ProbeUnsupported

fun filter_probe_as_str :: "filter_probe \<Rightarrow> string" where
  "filter_probe_as_str ProbeOpen = ''adf-or-eif''"
| "filter_probe_as_str ProbeBlocked = ''apdf''"
| "filter_probe_as_str ProbeUnsupported = ''unknown''"

fun filter_probe_legacy :: "filter_probe \<Rightarrow> udp_nat_filtering" where
  "filter_probe_legacy ProbeBlocked = AddressDependent"
| "filter_probe_legacy _ = FilteringUnknown"

fun filter_probe_wire :: "filter_probe \<Rightarrow> udp_filter_probe option" where
  "filter_probe_wire ProbeOpen = Some AddressDependentOrOpen"
| "filter_probe_wire ProbeBlocked = Some AddressAndPortDependent"
| "filter_probe_wire ProbeUnsupported = None"

text \<open>How the verdict enters the profile that is sent to the other peer.\<close>

definition record_verdict :: "udp_nat_profile \<Rightarrow> filter_probe \<Rightarrow> udp_nat_profile" where
  "record_verdict profile probe =
     profile\<lparr>wire_filtering := filter_probe_legacy probe, wire_filtering_probe := filter_probe_wire probe\<rparr>"

definition filter_probe_attempts :: nat where "filter_probe_attempts = 3"

text \<open>
  What happens in one attempt: the send fails, no datagram arrives in time, or one does, with
  its source address.
\<close>

datatype probe_event = SendFailed | NoDatagram | Datagram string socket_addr

fun addr_port :: "socket_addr \<Rightarrow> 16 word" where
  "addr_port (V4 _ port) = port"
| "addr_port (V6 _ port) = port"

text \<open>The two loops; \<open>Inl\<close> is a \<^verbatim>\<open>return\<close> out of the first, \<open>Inr\<close> the flag it leaves.\<close>

fun support_loop :: "socket_addr \<Rightarrow> string \<Rightarrow> probe_event list \<Rightarrow> (panic, filter_probe + bool) result" where
  "support_loop stun txid [] = Inr (Inr False)"
| "support_loop stun txid (SendFailed # evs) = Inr (Inl ProbeUnsupported)"
| "support_loop stun txid (NoDatagram # evs) = support_loop stun txid evs"
| "support_loop stun txid (Datagram d from # evs) =
     (if from = stun then
        rbind (parse_response (take recv_len d) txid) (\<lambda>r.
        if r \<noteq> None then rbind (parse_other_address (take recv_len d)) (\<lambda>other. Inr (Inr (other \<noteq> None)))
        else support_loop stun txid evs)
      else support_loop stun txid evs)"

fun probe_loop :: "socket_addr \<Rightarrow> string \<Rightarrow> probe_event list \<Rightarrow> (panic, filter_probe) result" where
  "probe_loop stun probe_txid [] = Inr ProbeBlocked"
| "probe_loop stun probe_txid (SendFailed # evs) = Inr ProbeUnsupported"
| "probe_loop stun probe_txid (NoDatagram # evs) = probe_loop stun probe_txid evs"
| "probe_loop stun probe_txid (Datagram d from # evs) =
     rbind (parse_response (take recv_len d) probe_txid) (\<lambda>r.
     if r = None then probe_loop stun probe_txid evs
     else if addr_port from \<noteq> addr_port stun then Inr ProbeOpen
     else Inr ProbeUnsupported)"

definition probe_filtering ::
  "socket_addr \<Rightarrow> string \<Rightarrow> string \<Rightarrow> (nat \<Rightarrow> probe_event) \<Rightarrow> (nat \<Rightarrow> probe_event) \<Rightarrow> (panic, filter_probe) result" where
  "probe_filtering stun txid probe_txid env1 env2 =
     rbind (support_loop stun txid (map env1 [0..<filter_probe_attempts])) (\<lambda>r.
     case r of
       Inl v \<Rightarrow> Inr v
     | Inr supported \<Rightarrow>
         if \<not> supported then Inr ProbeUnsupported
         else probe_loop stun probe_txid (map env2 [0..<filter_probe_attempts]))"

text \<open>
  The same probe over the transactions of a traversal socket, which match an answer to its
  request before the probe sees it: a transaction fails, times out or yields a reply with its
  source and what it published.
\<close>

record stun_reply =
  reply_mapped :: socket_addr
  reply_from :: socket_addr
  reply_other :: "socket_addr option"

datatype stun_outcome = Failed | TimedOut | Replied stun_reply

fun traversal_support_loop :: "stun_outcome list \<Rightarrow> filter_probe + bool" where
  "traversal_support_loop [] = Inr False"
| "traversal_support_loop (Replied r # evs) = Inr (reply_other r \<noteq> None)"
| "traversal_support_loop (TimedOut # evs) = traversal_support_loop evs"
| "traversal_support_loop (Failed # evs) = Inl ProbeUnsupported"

fun traversal_probe_loop :: "socket_addr \<Rightarrow> stun_outcome list \<Rightarrow> filter_probe" where
  "traversal_probe_loop target [] = ProbeBlocked"
| "traversal_probe_loop target (Replied r # evs) =
     (if addr_port (reply_from r) \<noteq> addr_port target then ProbeOpen else ProbeUnsupported)"
| "traversal_probe_loop target (TimedOut # evs) = traversal_probe_loop target evs"
| "traversal_probe_loop target (Failed # evs) = ProbeUnsupported"

definition traversal_probe_filtering ::
  "socket_addr \<Rightarrow> (nat \<Rightarrow> stun_outcome) \<Rightarrow> (nat \<Rightarrow> stun_outcome) \<Rightarrow> filter_probe" where
  "traversal_probe_filtering target env1 env2 =
     (case traversal_support_loop (map env1 [0..<filter_probe_attempts]) of
        Inl v \<Rightarrow> v
      | Inr supported \<Rightarrow>
          if \<not> supported then ProbeUnsupported
          else traversal_probe_loop target (map env2 [0..<filter_probe_attempts]))"

section \<open>Check frames are authentic\<close>

text \<open>What is relied on of the message code: it is 32 bytes long.\<close>

definition hmac_ok :: "(string \<Rightarrow> string \<Rightarrow> string) \<Rightarrow> bool" where
  "hmac_ok hmac = (\<forall>key m. length (hmac key m) = 32)"

lemma u16_of_bytes: "length bs = 2 \<Longrightarrow> u16_bytes (word_of_nat (from_be_bytes bs)) = bs"
  using from_be_bytes_less [of bs] to_from_be_bytes [of bs 2]
  by (simp add: u16_bytes_def unsigned_of_nat take_bit_nat_eq_self)

lemma u32_of_bytes: "length bs = 4 \<Longrightarrow> u32_bytes (word_of_nat (from_be_bytes bs)) = bs"
  using from_be_bytes_less [of bs] to_from_be_bytes [of bs 4]
  by (simp add: u32_bytes_def unsigned_of_nat take_bit_nat_eq_self)

lemma u16_bytes_inj [simp]: "u16_bytes a = u16_bytes b \<longleftrightarrow> a = b"
  using u16_value by metis

lemma u32_bytes_inj [simp]: "u32_bytes a = u32_bytes b \<longleftrightarrow> a = b"
  using u32_value by metis

lemma slice_nth:
  assumes "i + k \<le> length s"
  shows "Rust_Text.slice s i (i + k) = map (\<lambda>j. s ! (i + j)) [0..<k]"
  using assms by (intro nth_equalityI) (simp_all add: slice_def)

lemma rd_u16_iff: "i + 2 \<le> length buf \<Longrightarrow> rd_u16 buf i = Inr w \<longleftrightarrow> Rust_Text.slice buf i (i + 2) = u16_bytes w"
proof -
  assume l: "i + 2 \<le> length buf"
  have s: "Rust_Text.slice buf i (i + 2) = [buf ! i, buf ! (i + 1)]"
    unfolding slice_nth [OF l] by (simp add: eval_nat_numeral)
  show ?thesis
    unfolding s rd_u16_in [OF l] using u16_of_bytes [of "[buf ! i, buf ! (i + 1)]"] u16_value [of w] by auto
qed

lemma rd_u32_iff: "i + 4 \<le> length buf \<Longrightarrow> rd_u32 buf i = Inr w \<longleftrightarrow> Rust_Text.slice buf i (i + 4) = u32_bytes w"
proof -
  assume l: "i + 4 \<le> length buf"
  have s: "Rust_Text.slice buf i (i + 4) = [buf ! i, buf ! (i + 1), buf ! (i + 2), buf ! (i + 3)]"
    unfolding slice_nth [OF l] by (simp add: eval_nat_numeral)
  show ?thesis
    unfolding s rd_u32_in [OF l]
    using u32_of_bytes [of "[buf ! i, buf ! (i + 1), buf ! (i + 2), buf ! (i + 3)]"] u32_value [of w] by auto
qed

definition observed_pair :: "(32 word \<times> 16 word) option \<Rightarrow> 32 word \<times> 16 word" where
  "observed_pair x = (case x of Some p \<Rightarrow> p | None \<Rightarrow> (0, 0))"

lemma zero_bytes: "u32_bytes 0 @ u16_bytes 0 = replicate 6 (CHR 0x00)"
proof -
  have "be_digits 256 k 0 = replicate k 0" for k
    by (induction k) (simp_all add: replicate_append_same)
  then show ?thesis by (simp add: u32_bytes_def u16_bytes_def to_be_bytes_def char_of_def replicate_add [symmetric])
qed

lemma check_head_pair:
  "check_head kind role gen txid x = check_magic @ [char_of kind] @ [char_of role] @ u32_bytes gen @ txid @
     u32_bytes (fst (observed_pair x)) @ u16_bytes (snd (observed_pair x))"
  by (simp add: check_head_def observed_pair_def zero_bytes split: option.split)

lemma head_rebuild:
  assumes "28 \<le> length s"
  shows "take 28 s = take 4 s @ [s ! 4] @ [s ! 5] @ Rust_Text.slice s 6 10 @ Rust_Text.slice s 10 22 @
    Rust_Text.slice s 22 26 @ Rust_Text.slice s 26 28"
proof -
  have "drop 4 s = s ! 4 # drop 5 s" "drop 5 s = s ! 5 # drop 6 s"
    using assms Cons_nth_drop_Suc [of 4 s] Cons_nth_drop_Suc [of 5 s] by simp_all
  moreover have "drop 6 s = Rust_Text.slice s 6 10 @ drop 10 s" "drop 10 s = Rust_Text.slice s 10 22 @ drop 22 s"
    "drop 22 s = Rust_Text.slice s 22 26 @ drop 26 s" "drop 26 s = Rust_Text.slice s 26 28 @ drop 28 s"
    by (rule slice_drop, simp)+
  ultimately have "s = (take 4 s @ [s ! 4] @ [s ! 5] @ Rust_Text.slice s 6 10 @ Rust_Text.slice s 10 22 @
      Rust_Text.slice s 22 26 @ Rust_Text.slice s 26 28) @ drop 28 s"
    using append_take_drop_id [of 4 s] by simp
  then show ?thesis by (metis append_same_eq append_take_drop_id)
qed

lemma head_iff:
  assumes "length buf = 60" "length txid = 12"
  shows "take 28 buf = check_head kind role gen txid x \<longleftrightarrow>
    take 4 buf = check_magic \<and> buf ! 4 = char_of kind \<and> buf ! 5 = char_of role \<and>
    rd_u32 buf 6 = Inr gen \<and> Rust_Text.slice buf 10 22 = txid \<and>
    rd_u32 buf 22 = Inr (fst (observed_pair x)) \<and> rd_u16 buf 26 = Inr (snd (observed_pair x))"
proof -
  have l: "length (take 4 buf) = 4" "length (Rust_Text.slice buf 6 10) = 4" "length (Rust_Text.slice buf 10 22) = 12"
    "length (Rust_Text.slice buf 22 26) = 4" "length (Rust_Text.slice buf 26 28) = 2" "length check_magic = 4"
    using assms by (simp_all add: slice_def check_magic_def)
  have r: "rd_u32 buf 6 = Inr gen \<longleftrightarrow> Rust_Text.slice buf 6 10 = u32_bytes gen"
    "rd_u32 buf 22 = Inr ip \<longleftrightarrow> Rust_Text.slice buf 22 26 = u32_bytes ip"
    "rd_u16 buf 26 = Inr port \<longleftrightarrow> Rust_Text.slice buf 26 28 = u16_bytes port" for ip port
    using rd_u32_iff [of 6 buf gen] rd_u32_iff [of 22 buf ip] rd_u16_iff [of 26 buf port] assms(1) by simp_all
  have "28 \<le> length buf" using assms(1) by simp
  then show ?thesis
    unfolding head_rebuild [OF \<open>28 \<le> length buf\<close>] check_head_pair r using l assms(2) by simp
qed

lemma check_reads:
  assumes "looks_like buf"
  obtains gen ip port where "rd_u32 buf 6 = Inr gen" "rd_u32 buf 22 = Inr ip" "rd_u16 buf 26 = Inr port"
    "check_parse hmac key buf =
      (if byte_of (buf ! 4) \<noteq> 1 \<and> byte_of (buf ! 4) \<noteq> 2 \<or> hmac key (take 28 buf) \<noteq> drop 28 buf then Inr None
       else Inr (Some \<lparr>cf_kind = byte_of (buf ! 4), cf_role = byte_of (buf ! 5), cf_generation = gen,
         cf_txid = Rust_Text.slice buf 10 22,
         cf_observed = (if ip = 0 \<and> port = 0 then None else Some (V4 ip port))\<rparr>))"
proof -
  have l: "length buf = 60" using assms by (simp add: looks_like_def check_frame_len_def)
  obtain gen ip port where r: "rd_u32 buf 6 = Inr gen" "rd_u32 buf 22 = Inr ip" "rd_u16 buf 26 = Inr port"
    using l rd_u32_in [of 6 buf] rd_u32_in [of 22 buf] rd_u16_in [of 26 buf] by simp
  have "check_parse hmac key buf =
      (if byte_of (buf ! 4) \<noteq> 1 \<and> byte_of (buf ! 4) \<noteq> 2 \<or> hmac key (take 28 buf) \<noteq> drop 28 buf then Inr None
       else Inr (Some \<lparr>cf_kind = byte_of (buf ! 4), cf_role = byte_of (buf ! 5), cf_generation = gen,
         cf_txid = Rust_Text.slice buf 10 22,
         cf_observed = (if ip = 0 \<and> port = 0 then None else Some (V4 ip port))\<rparr>))"
    using assms l r by (simp add: check_parse_def rd_slice_def slice_def kind_request_def kind_response_def hmac_at_def)
  with r that show thesis by blast
qed

lemma check_build_shape:
  assumes "hmac_ok hmac" "length txid = 12"
  shows "length (check_head kind role gen txid x) = 28"
    "buf = check_build hmac key kind role gen txid x \<longleftrightarrow> length buf = 60 \<and>
      take 28 buf = check_head kind role gen txid x \<and> hmac key (take 28 buf) = drop 28 buf"
proof -
  show h: "length (check_head kind role gen txid x) = 28"
    using assms(2) by (simp add: check_head_pair check_magic_def)
  have m: "length (hmac key t) = 32" for t using assms(1) by (simp add: hmac_ok_def)
  show "buf = check_build hmac key kind role gen txid x \<longleftrightarrow> length buf = 60 \<and>
      take 28 buf = check_head kind role gen txid x \<and> hmac key (take 28 buf) = drop 28 buf" (is "?l \<longleftrightarrow> ?r")
  proof
    assume ?r
    then show ?l using append_take_drop_id [of 28 buf] by (metis check_build_def)
  qed (use h m in \<open>simp add: check_build_def Let_def\<close>)
qed

lemma observed_iff:
  "obs = (if ip = 0 \<and> port = 0 then None else Some (V4 ip port)) \<longleftrightarrow>
     plain_v4 obs = obs \<and> obs \<noteq> Some (V4 0 0) \<and> observed_pair (v4_of obs) = (ip, port)"
proof (cases obs)
  case (Some a)
  then show ?thesis by (cases a) (auto simp: plain_v4_def v4_of_def observed_pair_def)
qed (auto simp: plain_v4_def v4_of_def observed_pair_def)

text \<open>
  C8. A datagram is accepted as a check frame exactly when it is that frame as built with the
  same key: what is built is read back, and nothing else is accepted; no datagram makes the
  reader panic. An observed address that is all zero is read as no address.
\<close>

theorem check_frame_exact:
  assumes "hmac_ok hmac"
  shows "is_ok (check_parse hmac key buf) \<and>
    (check_parse hmac key buf = Inr (Some f) \<longleftrightarrow>
      (cf_kind f = kind_request \<or> cf_kind f = kind_response) \<and> cf_role f < 256 \<and> length (cf_txid f) = 12 \<and>
      plain_v4 (cf_observed f) = cf_observed f \<and> cf_observed f \<noteq> Some (V4 0 0) \<and>
      buf = check_build hmac key (cf_kind f) (cf_role f) (cf_generation f) (cf_txid f) (v4_of (cf_observed f)))"
proof (cases "looks_like buf")
  case True
  then have l: "length buf = 60" "take 4 buf = check_magic" by (simp_all add: looks_like_def check_frame_len_def)
  obtain gen ip port where r: "rd_u32 buf 6 = Inr gen" "rd_u32 buf 22 = Inr ip" "rd_u16 buf 26 = Inr port"
    and c: "check_parse hmac key buf =
      (if byte_of (buf ! 4) \<noteq> 1 \<and> byte_of (buf ! 4) \<noteq> 2 \<or> hmac key (take 28 buf) \<noteq> drop 28 buf then Inr None
       else Inr (Some \<lparr>cf_kind = byte_of (buf ! 4), cf_role = byte_of (buf ! 5), cf_generation = gen,
         cf_txid = Rust_Text.slice buf 10 22,
         cf_observed = (if ip = 0 \<and> port = 0 then None else Some (V4 ip port))\<rparr>))"
    by (rule check_reads [OF True])
  have t: "length (Rust_Text.slice buf 10 22) = 12" using l(1) by (simp add: slice_def)
  have b: "byte_of ch = k \<longleftrightarrow> ch = char_of k \<and> k < 256" for ch k by auto
  have "check_parse hmac key buf = Inr (Some f) \<longleftrightarrow>
      (byte_of (buf ! 4) = 1 \<or> byte_of (buf ! 4) = 2) \<and> hmac key (take 28 buf) = drop 28 buf \<and>
      byte_of (buf ! 4) = cf_kind f \<and> byte_of (buf ! 5) = cf_role f \<and> gen = cf_generation f \<and>
      Rust_Text.slice buf 10 22 = cf_txid f \<and> cf_observed f = (if ip = 0 \<and> port = 0 then None else Some (V4 ip port))"
    unfolding c by (cases f) auto
  also have "\<dots> \<longleftrightarrow> (cf_kind f = kind_request \<or> cf_kind f = kind_response) \<and> cf_role f < 256 \<and> length (cf_txid f) = 12 \<and>
      plain_v4 (cf_observed f) = cf_observed f \<and> cf_observed f \<noteq> Some (V4 0 0) \<and>
      buf = check_build hmac key (cf_kind f) (cf_role f) (cf_generation f) (cf_txid f) (v4_of (cf_observed f))"
    (is "?a \<longleftrightarrow> ?b")
  proof (cases "length (cf_txid f) = 12")
    case len: True
    note shape = check_build_shape(2) [OF assms len]
    show ?thesis
      unfolding shape head_iff [OF l(1) len] observed_iff r l(2) kind_request_def kind_response_def
      by (auto simp: b l(1) len)
  qed (use t in auto)
  finally show ?thesis unfolding c by simp
next
  case False
  have "looks_like buf" if "length (cf_txid f) = 12"
    "buf = check_build hmac key (cf_kind f) (cf_role f) (cf_generation f) (cf_txid f) (v4_of (cf_observed f))"
    using that(2) head_iff [OF _ that(1)] unfolding check_build_shape(2) [OF assms that(1)]
    by (auto simp: looks_like_def check_frame_len_def)
  with False show ?thesis by (auto simp: check_parse_def)
qed

theorem check_frame_exact_witness:
  "check_parse (\<lambda>key m. take 32 (key @ m @ replicate 32 (CHR 0x00))) (replicate 32 (CHR ''k''))
     (check_response (\<lambda>key m. take 32 (key @ m @ replicate 32 (CHR 0x00))) (replicate 32 (CHR ''k'')) 2 7
       (replicate 12 (CHR ''t'')) (V4 0xC0000201 4500)) =
   Inr (Some \<lparr>cf_kind = 2, cf_role = 2, cf_generation = 7, cf_txid = replicate 12 (CHR ''t''),
     cf_observed = Some (V4 0xC0000201 4500)\<rparr>)"
proof -
  have "hmac_ok (\<lambda>key m. take 32 (key @ m @ replicate 32 (CHR 0x00)))" by (auto simp: hmac_ok_def min_def)
  from check_frame_exact [OF this] show ?thesis
    by (simp add: check_response_def kind_response_def plain_v4_def v4_of_def)
qed

section \<open>What the probe concludes\<close>

text \<open>Whether a datagram answers the request with id \<open>tid\<close>.\<close>

definition answers :: "string \<Rightarrow> string \<Rightarrow> bool" where
  "answers tid d = (\<exists>a. parse_response (take recv_len d) tid = Inr (Some a))"

lemma traversal_probe_iff: "traversal_probe_loop stun evs = ProbeBlocked \<longleftrightarrow> (\<forall>i < length evs. evs ! i = TimedOut)"
  by (induction stun evs rule: traversal_probe_loop.induct) (auto simp: less_Suc_eq_0_disj)

lemma traversal_support_iff:
  "traversal_support_loop evs = Inr True \<longleftrightarrow>
     (\<exists>i < length evs. \<exists>r. evs ! i = Replied r \<and> reply_other r \<noteq> None \<and> (\<forall>j < i. evs ! j = TimedOut))"
proof (induction evs rule: traversal_support_loop.induct)
  case (2 r evs)
  then show ?case by (auto simp: less_Suc_eq_0_disj)
next
  case (3 evs)
  have "(\<exists>i < length (TimedOut # evs). \<exists>r. (TimedOut # evs) ! i = Replied r \<and> reply_other r \<noteq> None \<and>
        (\<forall>j < i. (TimedOut # evs) ! j = TimedOut)) \<longleftrightarrow>
      (\<exists>i < length evs. \<exists>r. evs ! i = Replied r \<and> reply_other r \<noteq> None \<and> (\<forall>j < i. evs ! j = TimedOut))"
    by (simp add: Ex_less_Suc2 All_less_Suc2)
  with 3 show ?case by simp
next
  case (4 evs)
  then show ?case by (auto simp: less_Suc_eq_0_disj)
qed simp

lemma traversal_support_map:
  "traversal_support_loop (map f [0..<n]) = Inr True \<longleftrightarrow>
     (\<exists>i < n. \<exists>r. f i = Replied r \<and> reply_other r \<noteq> None \<and> (\<forall>j < i. f j = TimedOut))"
proof -
  have "map f [0..<n] ! i = f i \<and> (\<forall>j < i. map f [0..<n] ! j = f j)" if "i < n" for i using that by simp
  then show ?thesis unfolding traversal_support_iff by (metis diff_zero length_map length_upt)
qed

lemma traversal_support_return: "traversal_support_loop evs = Inl v \<Longrightarrow> v = ProbeUnsupported"
  by (induction evs rule: traversal_support_loop.induct) auto

lemma foreign_datagrams_skipped:
  assumes "length tid = 12" "\<forall>ev \<in> set evs. \<exists>d from. ev = Datagram d from \<and> \<not> answers tid d"
  shows "probe_loop stun tid evs = Inr ProbeBlocked"
  using assms(2)
proof (induction evs)
  case (Cons ev evs)
  then obtain d src where e: "ev = Datagram d src" "\<not> answers tid d" by auto
  obtain r where "parse_response (take recv_len d) tid = Inr r"
    using parse_response_ok [OF assms(1)] by (auto simp: is_ok_iff)
  with e Cons show ?case by (cases r) (auto simp: answers_def)
qed simp

section \<open>The probe measures the filter\<close>

lemma request_lengths:
  "length txid = 12 \<Longrightarrow> length (binding_request txid) = 20"
  "length txid = 12 \<Longrightarrow> length (binding_request_change_port txid) = 28"
  by (simp_all add: binding_request_def binding_request_change_port_bytes)

lemma response_attrs_length: "length (response_attrs ip port origin other) \<le> 3"
  by (simp add: response_attrs_def opt_attr_def split: option.split)

text \<open>What the primary socket answers, and that the client reads it.\<close>

lemma primary_answers:
  assumes "length txid = 12" "request = (if chg then binding_request_change_port txid else binding_request txid)"
  shows "\<exists>reply. responder_primary primary_addr alt request (V4 ip port) = Inr (Some (chg \<and> alt \<noteq> None, reply)) \<and>
    parse_response (take recv_len reply) txid = Inr (Some (V4 ip port)) \<and>
    parse_other_address (take recv_len reply) = Inr (plain_v4 (Option.bind alt (\<lambda>a. a)))"
proof -
  let ?other = "Option.bind alt (\<lambda>a. a)" and ?c = "chg \<and> alt \<noteq> None"
  define sent_from where "sent_from = (case (if ?c then the alt else primary_addr) of Some a \<Rightarrow> Some a | None \<Rightarrow> primary_addr)"
  let ?as = "response_attrs ip port sent_from ?other"
  define reply where "reply = response_header (12 * length ?as) txid @ concat (map addr_attr ?as)"
  have "take recv_len request = request" "parse_change_request request = Inr (False, chg)"
    using assms request_lengths [OF assms(1)] parse_change_request_plain [OF assms(1)] parse_change_request_port [OF assms(1)]
    by (simp_all add: recv_len_def)
  moreover have "binding_response_full request (V4 ip port) sent_from ?other = Inr (Some reply)"
    unfolding reply_def by (rule request_answered [OF assms(1)]) (use assms(2) in auto)
  ultimately have "responder_primary primary_addr alt request (V4 ip port) = Inr (Some (?c, reply))"
    by (simp add: responder_primary_def stun_answer_def Let_def sent_from_def)
  moreover have "length (concat (map addr_attr xs)) = 12 * length xs" for xs
    by (induction xs) simp_all
  then have "length reply \<le> recv_len"
    using response_attrs_length [of ip port sent_from ?other] response_header_reads(4) [OF assms(1)]
    by (simp add: reply_def recv_len_def)
  moreover note response_parsed [OF assms(1) reply_def]
  ultimately show ?thesis by auto
qed

text \<open>
  A network that loses nothing: the answer of the primary socket arrives from the address the
  client asked, and an answer of the alternate socket arrives from its address exactly when
  the filter in front of the client admits it.
\<close>

definition exchange ::
  "socket_addr option \<Rightarrow> socket_addr option option \<Rightarrow> socket_addr \<Rightarrow> socket_addr \<Rightarrow> socket_addr \<Rightarrow> bool \<Rightarrow> string \<Rightarrow> probe_event" where
  "exchange primary_addr alt stun alt_public client admits request =
     (case responder_primary primary_addr alt request client of
        Inr (Some (False, reply)) \<Rightarrow> Datagram reply stun
      | Inr (Some (True, reply)) \<Rightarrow> if admits then Datagram reply alt_public else NoDatagram
      | _ \<Rightarrow> NoDatagram)"

lemma exchange_support:
  assumes "length txid = 12" "alt = None \<or> (\<exists>aip aport. alt = Some (Some (V4 aip aport)))"
  shows "support_loop stun txid (map (\<lambda>_. exchange primary_addr alt stun alt_public (V4 ip port) admits
    (binding_request txid)) [0..<3]) = Inr (Inr (alt \<noteq> None))"
proof -
  have "\<exists>d. exchange primary_addr alt stun alt_public (V4 ip port) admits (binding_request txid) = Datagram d stun \<and>
      parse_response (take recv_len d) txid = Inr (Some (V4 ip port)) \<and>
      parse_other_address (take recv_len d) = Inr (plain_v4 (Option.bind alt (\<lambda>a. a)))"
    using primary_answers [OF assms(1), where chg = False, OF refl, of primary_addr alt ip port]
    by (auto simp: exchange_def)
  moreover have "plain_v4 (Option.bind alt (\<lambda>a. a)) \<noteq> None \<longleftrightarrow> alt \<noteq> None"
    using assms(2) by (auto simp: plain_v4_def v4_of_def)
  moreover have "[0..<3] = [0, 1, 2 :: nat]" by (simp add: upt_rec)
  ultimately show ?thesis by auto
qed

lemma exchange_probe:
  assumes "length probe_txid = 12" "addr_port alt_public \<noteq> addr_port stun"
  shows "probe_loop stun probe_txid (map (\<lambda>_. exchange primary_addr (Some (Some (V4 aip aport))) stun alt_public (V4 ip port)
    admits (binding_request_change_port probe_txid)) [0..<3]) = Inr (if admits then ProbeOpen else ProbeBlocked)"
proof -
  have "\<exists>d. exchange primary_addr (Some (Some (V4 aip aport))) stun alt_public (V4 ip port) admits
        (binding_request_change_port probe_txid) = (if admits then Datagram d alt_public else NoDatagram) \<and>
      parse_response (take recv_len d) probe_txid = Inr (Some (V4 ip port))"
    using primary_answers [OF assms(1), where chg = True, OF refl, of primary_addr "Some (Some (V4 aip aport))" ip port]
    by (auto simp: exchange_def)
  moreover have "[0..<3] = [0, 1, 2 :: nat]" by (simp add: upt_rec)
  ultimately show ?thesis using assms(2) by auto
qed

text \<open>
  C17. Against a responder with an alternate socket, the probe measures the filter: the verdict
  is open exactly when the answer from the other port is let in and blocked when it is not,
  and the planner of the other peer reads it as such. Against a responder without one the
  verdict is unsupported whatever the filter does, and the planner reads that nothing is known.
\<close>

theorem filter_probe_measures:
  assumes "length txid = 12" "length probe_txid = 12" "addr_port alt_public \<noteq> addr_port stun"
  shows "probe_filtering stun txid probe_txid
      (\<lambda>_. exchange primary_addr (Some (Some (V4 aip aport))) stun alt_public (V4 ip port) admits (binding_request txid))
      (\<lambda>_. exchange primary_addr (Some (Some (V4 aip aport))) stun alt_public (V4 ip port) admits
        (binding_request_change_port probe_txid)) = Inr (if admits then ProbeOpen else ProbeBlocked) \<and>
    probe_filtering stun txid probe_txid
      (\<lambda>_. exchange primary_addr None stun alt_public (V4 ip port) admits (binding_request txid))
      (\<lambda>_. exchange primary_addr None stun alt_public (V4 ip port) admits (binding_request_change_port probe_txid)) =
      Inr ProbeUnsupported \<and>
    port_restricted (profile_from_wire (record_verdict prof v) offer) =
      (case v of ProbeOpen \<Rightarrow> Some False | ProbeBlocked \<Rightarrow> Some True | ProbeUnsupported \<Rightarrow> None)"
  unfolding probe_filtering_def filter_probe_attempts_def
  using exchange_support [OF assms(1), of None] exchange_support [OF assms(1), of "Some (Some (V4 aip aport))"]
    exchange_probe [OF assms(2,3)]
  by (simp add: port_restricted_def profile_from_wire_def Let_def record_verdict_def split: filter_probe.split)

theorem filter_probe_measures_witness:
  "probe_filtering (V4 1 3478) (replicate 12 (CHR ''t'')) (replicate 12 (CHR ''p''))
     (\<lambda>_. exchange (Some (V4 0 3478)) (Some (Some (V4 0 3479))) (V4 1 3478) (V4 1 3479) (V4 2 4500) False
        (binding_request (replicate 12 (CHR ''t''))))
     (\<lambda>_. exchange (Some (V4 0 3478)) (Some (Some (V4 0 3479))) (V4 1 3478) (V4 1 3479) (V4 2 4500) False
        (binding_request_change_port (replicate 12 (CHR ''p'')))) = Inr ProbeBlocked"
proof -
  have l: "length (replicate 12 (CHR ''t'')) = 12" "length (replicate 12 (CHR ''p'')) = 12"
    "addr_port (V4 1 3479) \<noteq> addr_port (V4 1 3478)" by simp_all
  show ?thesis using filter_probe_measures [OF l, THEN conjunct1, of _ _ _ _ _ False] by simp
qed

text \<open>
  C37. A traversal socket calls a filter blocked exactly when a reply published another address
  before any failure and then all three probes timed out. The plain probe calls it blocked
  also when datagrams that answer nothing arrived in all three attempts, so that no probe was
  left unanswered for its time.
\<close>

theorem blocked_verdict:
  assumes "length txid = 12" "length probe_txid = 12"
  shows "(traversal_probe_filtering stun tenv1 tenv2 = ProbeBlocked \<longleftrightarrow>
      (\<exists>i < 3. \<exists>r. tenv1 i = Replied r \<and> reply_other r \<noteq> None \<and> (\<forall>j < i. tenv1 j = TimedOut)) \<and>
      (\<forall>i < 3. tenv2 i = TimedOut)) \<and>
    (support_loop stun txid (map env1 [0..<3]) = Inr (Inr True) \<longrightarrow>
      (\<forall>i < 3. \<exists>d from. env2 i = Datagram d from \<and> \<not> answers probe_txid d) \<longrightarrow>
      probe_filtering stun txid probe_txid env1 env2 = Inr ProbeBlocked)"
proof -
  have "traversal_probe_filtering stun tenv1 tenv2 = ProbeBlocked \<longleftrightarrow>
      traversal_support_loop (map tenv1 [0..<3]) = Inr True \<and> traversal_probe_loop stun (map tenv2 [0..<3]) = ProbeBlocked"
    unfolding traversal_probe_filtering_def filter_probe_attempts_def
    using traversal_support_return [of "map tenv1 [0..<3]"] by (auto split: sum.split)
  moreover have "probe_filtering stun txid probe_txid env1 env2 = Inr ProbeBlocked"
    if "support_loop stun txid (map env1 [0..<3]) = Inr (Inr True)"
      "\<forall>i < 3. \<exists>d from. env2 i = Datagram d from \<and> \<not> answers probe_txid d"
    using that foreign_datagrams_skipped [OF assms(2), of "map env2 [0..<3]"]
    by (simp add: probe_filtering_def filter_probe_attempts_def)
  ultimately show ?thesis unfolding traversal_support_map traversal_probe_iff by simp
qed

theorem blocked_verdict_witness:
  "probe_filtering (V4 1 3478) (replicate 12 (CHR ''t'')) (replicate 12 (CHR ''p''))
     (\<lambda>_. exchange (Some (V4 0 3478)) (Some (Some (V4 0 3479))) (V4 1 3478) (V4 1 3479) (V4 2 4500) True
        (binding_request (replicate 12 (CHR ''t''))))
     (\<lambda>_. Datagram ''stray'' (V4 9 9)) = Inr ProbeBlocked \<and>
   traversal_probe_filtering (V4 1 3478)
     (\<lambda>_. Replied \<lparr>reply_mapped = V4 2 4500, reply_from = V4 1 3478, reply_other = Some (V4 0 3479)\<rparr>) (\<lambda>_. TimedOut) = ProbeBlocked"
proof -
  have l: "length (replicate 12 (CHR ''t'')) = 12" "length (replicate 12 (CHR ''p'')) = 12" by simp_all
  have "\<not> answers (replicate 12 (CHR ''p'')) ''stray''"
    by (simp add: answers_def parse_response_def recv_len_def)
  then have f: "\<forall>i < 3 :: nat. \<exists>d src. Datagram ''stray'' (V4 9 9) = Datagram d src \<and> \<not> answers (replicate 12 (CHR ''p'')) d"
    by blast
  have e: "support_loop (V4 1 3478) (replicate 12 (CHR ''t'')) (map (\<lambda>_. exchange (Some (V4 0 3478)) (Some (Some (V4 0 3479)))
      (V4 1 3478) (V4 1 3479) (V4 2 4500) True (binding_request (replicate 12 (CHR ''t'')))) [0..<3]) = Inr (Inr True)"
    using exchange_support [OF l(1), of "Some (Some (V4 0 3479))"] by simp
  have r: "(\<exists>i < 3 :: nat. \<exists>r. Replied \<lparr>reply_mapped = V4 2 4500, reply_from = V4 1 3478, reply_other = Some (V4 0 3479)\<rparr> = Replied r \<and>
      reply_other r \<noteq> None \<and> (\<forall>j < i. Replied \<lparr>reply_mapped = V4 2 4500, reply_from = V4 1 3478,
        reply_other = Some (V4 0 3479)\<rparr> = TimedOut)) \<and> (\<forall>i < 3 :: nat. TimedOut = TimedOut)"
    by (intro conjI exI [of _ 0]) simp_all
  show ?thesis
    by (rule conjI, rule mp [OF mp [OF conjunct2 [OF blocked_verdict [OF l]] e] f],
        rule iffD2 [OF conjunct1 [OF blocked_verdict [OF l]] r])
qed

end
