(* ===== verification/Spec2Isabelle.thy ===== *)
theory Spec2Isabelle
  imports Bore_Prelude Rust_Text Reconnect Liveness Carrier_Pool Fast_Link_Framing Transfer_Filename Fast_Link_Request Fast_Link_Response Adaptive_Nat Web_Frames Nat_Probe
begin

text \<open>
  A verification library for \<^verbatim>\<open>bore\<close>, a program that publishes local
  services through a server (tunnels, secret tunnels, virtual hosts, a VPN) and moves files
  between browsers and terminals. The theories model the parts that decide something: when a
  connection is retried or reaped, which carrier a stream takes, where an HTTP body ends, which
  path two NATs can use, and which messages, manifests and frames of a web transfer are
  accepted. The parts interact as follows. A client runs the supervision loop (Reconnect) and
  sends heartbeats that the server's reaper measures (Liveness). Streams of a tunnel are spread
  over the carriers of a pool (Carrier-Pool). A fast link reads a request head
  (Fast-Link-Request), frames the body (Fast-Link-Framing) and answers
  (Fast-Link-Response, with the names of Transfer-Filename). For a direct path both peers probe
  their NAT (Stun, Nat-Probe) and the planner compares the profiles (Adaptive-Nat). Web transfer
  peers exchange envelopes (Web-Json, Web-Ids, Web-Envelope, Web-Bodies, Web-Messages), publish
  manifests (Web-Manifest) and send sealed frames (Web-Frames).

  \<^bold>\<open>Theories and sources.\<close> All paths are below \<^verbatim>\<open>src/src\<close>.
  \<^item> Bore-Prelude: results (\<^verbatim>\<open>Result\<close> as a sum with the error on the left),
    checked, saturating and wrapping 64-bit arithmetic, lists, and the locale
    \<open>transition_system\<close> whose lemmas carry every invariant proved by rule induction.
  \<^item> Rust-Text: byte strings as the standard library has them: trimming, splitting, decimal
    and hexadecimal numbers, percent coding, big-endian integers.
  \<^item> Reconnect (\<^verbatim>\<open>reconnect.rs\<close>), Liveness (\<^verbatim>\<open>liveness.rs\<close>,
    \<^verbatim>\<open>mux.rs\<close>), Carrier-Pool (\<^verbatim>\<open>pool.rs\<close>): one definition per method,
    the structs as records, atomics as a heap of counters, and for
    \<^verbatim>\<open>BulkTicket::record\<close> one step per atomic operation.
  \<^item> Fast-Link-Framing, Fast-Link-Request, Fast-Link-Response
    (\<^verbatim>\<open>fast_link/framing.rs\<close>, \<^verbatim>\<open>request.rs\<close>, \<^verbatim>\<open>response.rs\<close>,
    \<^verbatim>\<open>mod.rs\<close>) and Transfer-Filename (\<^verbatim>\<open>transfer_link/source.rs\<close>,
    \<^verbatim>\<open>shared.rs\<close>).
  \<^item> Adaptive-Nat (\<^verbatim>\<open>adaptive_nat.rs\<close>, the profile types of
    \<^verbatim>\<open>shared.rs\<close>), Stun and Nat-Probe (\<^verbatim>\<open>holepunch.rs\<close>): addresses and
    ports are 32-bit and 16-bit words, reads of a datagram are checked reads that can panic.
  \<^item> Web-Json to Web-Frames (\<^verbatim>\<open>web_transfer_protocol.rs\<close>, limits and tokens of
    \<^verbatim>\<open>web_transfer.rs\<close>).
\<close>

end
